theory Spec2Isabelle
  imports Main "HOL-Library.Word"
begin

section \<open>The riotbot tutorial service of go-neb\<close>

text \<open>
  A shallow embedding of \<^verbatim>\<open>services/riotbot/riotbot.go\<close>. The service walks a chat user
  through a scripted sequence of messages. Every Go function of the file that takes part in
  that becomes a HOL function of the same name. What the Go code does besides returning a
  value is made explicit:
  \<^item> logging and sending append to the \<open>trace\<close> of the world;
  \<^item> a \<^verbatim>\<open>*time.Timer\<close> is a handle (an index) into the table of timers of the world, and
    the nil pointer is \<open>None\<close>;
  \<^item> a method with a pointer receiver (\<^verbatim>\<open>restart\<close>, \<^verbatim>\<open>queueNextStep\<close>) takes the value
    stored behind the pointer and hands the updated value on; a method with a value receiver
    (\<^verbatim>\<open>nextStep\<close>, \<^verbatim>\<open>renderBody\<close>) takes a value, and what it changes is its own copy;
  \<^item> the receive \<^verbatim>\<open><-t.timer.C\<close> suspends the running goroutine: a function that reaches it
    stops with the outcome \<open>Blocked\<close>, and the goroutine goes on once the timer has expired;
  \<^item> a run-time panic is the outcome \<open>Panicked\<close>.
\<close>

subsection \<open>Data\<close>

text \<open>\<^verbatim>\<open>time.Duration\<close> is an \<^verbatim>\<open>int64\<close>.\<close>

type_synonym Duration = "64 word"

record TutorialStep =
  Type :: string
  Body :: string
  Src :: string
  Delay :: Duration

record TutorialFlow =
  ResourcesBaseURL :: string
  Templates :: "string \<rightharpoonup> string"
  InitialDelay :: Duration
  Steps :: "TutorialStep list"

text \<open>
  The struct \<^verbatim>\<open>Tutorial\<close>. The field \<open>currentStep\<close> is a Go \<^verbatim>\<open>int\<close>; it is only ever set
  to \<open>-1\<close> and incremented while it is below the number of steps, so it is modelled as an
  unbounded integer. The client pointer \<open>cli\<close> is an opaque handle.
\<close>

record Tutorial =
  roomID :: string
  userID :: string
  currentStep :: int
  timer :: "nat option"
  cli :: nat
  templates :: "string \<rightharpoonup> string"

text \<open>The two message structs of gomatrix that the service fills in: message type, body, and the
  URL of an image.\<close>

datatype message =
  ImageMessage string string string
| TextMessage string string

text \<open>One constructor for each call of \<^verbatim>\<open>log.Print\<close>, \<^verbatim>\<open>log.Printf\<close> and
  \<^verbatim>\<open>log.Println\<close> in the file, with the values it formats.\<close>

datatype logentry =
  LogQueueing string int Duration
| LogPerforming int string
| LogFailedImage
| LogSendingImage string
| LogFailedNotice string
| LogSendingNotice string
| LogFailedText string
| LogSendingText string
| LogEnded
| LogFailedCreateTemplate
| LogFailedExecute
| LogRestarting nat
| LogNotFound
| LogStarting Tutorial

text \<open>What the process does that can be observed from outside: it writes to the log, and it
  calls \<^verbatim>\<open>SendMessageEvent\<close> on a client with a room, an event type and a message.\<close>

datatype event =
  Log logentry
| SendEvent nat string string message

datatype tstatus = Active | Fired | Stopped

datatype 'a result = Panic | Ret 'a

datatype outcome = Blocked nat Tutorial | Returned | Panicked

text \<open>
  What a goroutine does once the chain of \<^verbatim>\<open>queueNextStep\<close> and \<^verbatim>\<open>nextStep\<close> calls it is
  running has returned. A goroutine started by the \<^verbatim>\<open>go\<close> statement ends. A call of
  \<^verbatim>\<open>initTutorialFlow\<close> that went into \<^verbatim>\<open>restart\<close> for the registry index \<open>i\<close> still has
  to log and to return its string.
\<close>

datatype kont = Goroutine | RestartCall nat

text \<open>
  A goroutine is \<open>Ready\<close> (started by \<^verbatim>\<open>go\<close>, about to call \<^verbatim>\<open>queueNextStep\<close> with the
  given delay), \<open>Waiting\<close> (suspended in \<^verbatim>\<open><-t.timer.C\<close> on the given timer, with the given
  value of \<^verbatim>\<open>*t\<close>), \<open>Done\<close> (ended; a call of \<^verbatim>\<open>initTutorialFlow\<close> carries the string it
  returned) or \<open>Crashed\<close> (it panicked). In Go a panic that nothing recovers ends the whole
  program; here it is recorded for the goroutine that panicked, and nothing below is about
  what the other goroutines do after it.
\<close>

datatype thread =
  Ready Tutorial Duration
| Waiting nat Tutorial kont
| Done "string option"
| Crashed

text \<open>The state of the process: the global slice \<^verbatim>\<open>tutorials\<close>, the timers made so far (the
  duration each was made with, and its status), the goroutines, and the events so far.\<close>

record world =
  tutorials :: "Tutorial list"
  timers :: "(Duration \<times> tstatus) list"
  threads :: "thread list"
  trace :: "event list"

text \<open>
  What the file takes from outside. The global \<^verbatim>\<open>tutorialFlow\<close> is read from a YAML file
  when the package is loaded. The package \<^verbatim>\<open>text/template\<close> and the Matrix client are
  libraries, so they are parameters:
  \<^item> \<open>Parse\<close> is \<^verbatim>\<open>template.New("message").Parse\<close>: it returns a template, or an error and
    the nil template (\<open>None\<close>);
  \<^item> \<open>Execute\<close> is \<^verbatim>\<open>tmpl.Execute\<close> on a template that is not nil, writing to an empty
    buffer: the text written, or an error (\<open>None\<close>);
  \<^item> \<open>SendFails\<close> says whether \<^verbatim>\<open>SendMessageEvent\<close> returns an error; it may depend on
    everything that happened before.
\<close>

record 'tm env =
  tutorialFlow :: TutorialFlow
  Parse :: "string \<Rightarrow> 'tm option"
  Execute :: "'tm \<Rightarrow> (string \<rightharpoonup> string) \<Rightarrow> string option"
  SendFails :: "event list \<Rightarrow> nat \<Rightarrow> string \<Rightarrow> string \<Rightarrow> message \<Rightarrow> bool"

subsection \<open>Timers, the log and the client\<close>

definition emit :: "event \<Rightarrow> world \<Rightarrow> world" where
  "emit e w = w\<lparr>trace := trace w @ [e]\<rparr>"

text \<open>\<^verbatim>\<open>time.NewTimer(d)\<close>: a new timer that has not expired yet.\<close>

definition NewTimer :: "Duration \<Rightarrow> world \<Rightarrow> nat \<times> world" where
  "NewTimer d w = (length (timers w), w\<lparr>timers := timers w @ [(d, Active)]\<rparr>)"

text \<open>\<^verbatim>\<open>Timer.Stop\<close>: a timer that has not expired will not expire any more; one that has
  expired or was stopped stays as it is.\<close>

definition StopTimer :: "nat \<Rightarrow> world \<Rightarrow> world" where
  "StopTimer k w =
     (if k < length (timers w) \<and> snd (timers w ! k) = Active
      then w\<lparr>timers := (timers w)[k := (fst (timers w ! k), Stopped)]\<rparr>
      else w)"

text \<open>The expiry of a timer, which lets the goroutine that waits for it go on.\<close>

definition FireTimer :: "nat \<Rightarrow> world \<Rightarrow> world" where
  "FireTimer k w = w\<lparr>timers := (timers w)[k := (fst (timers w ! k), Fired)]\<rparr>"

text \<open>\<^verbatim>\<open>cli.SendMessageEvent(roomID, eventType, msg)\<close>: the call is an event, and the result
  says whether the error is not nil.\<close>

definition SendMessageEvent ::
  "'tm env \<Rightarrow> nat \<Rightarrow> string \<Rightarrow> string \<Rightarrow> message \<Rightarrow> world \<Rightarrow> bool \<times> world" where
  "SendMessageEvent env c room ty msg w =
     (SendFails env (trace w) c room ty msg, emit (SendEvent c room ty msg) w)"

subsection \<open>The functions of the file\<close>

definition NewTutorial ::
  "string \<Rightarrow> string \<Rightarrow> nat \<Rightarrow> (string \<rightharpoonup> string) \<Rightarrow> Tutorial" where
  "NewTutorial room user c tmpls =
     \<lparr>roomID = room, userID = user, currentStep = - 1, timer = None, cli = c,
      templates = tmpls\<rparr>"

text \<open>
  \<^verbatim>\<open>renderBody\<close>. When \<^verbatim>\<open>Parse\<close> returns an error the function logs it and goes on to
  \<^verbatim>\<open>tmpl.Execute\<close> with the nil template. \<^verbatim>\<open>Execute\<close> reads a field through that
  pointer; the run-time error is a panic, which \<^verbatim>\<open>text/template\<close> passes on.
\<close>

definition renderBody ::
  "'tm env \<Rightarrow> Tutorial \<Rightarrow> TutorialStep \<Rightarrow> world \<Rightarrow> string result \<times> world" where
  "renderBody env t ts w =
     (if Body ts \<noteq> [] then
        (case Parse env (Body ts) of
           None \<Rightarrow> (Panic, emit (Log LogFailedCreateTemplate) w)
         | Some tmpl \<Rightarrow>
             (case Execute env tmpl (templates t) of
                None \<Rightarrow> (Ret [], emit (Log LogFailedExecute) w)
              | Some s \<Rightarrow> (Ret s, w)))
      else (Ret [], w))"

text \<open>The \<^verbatim>\<open>switch step.Type\<close> of \<^verbatim>\<open>nextStep\<close>, lines 104 to 140.\<close>

definition nextStep_switch ::
  "'tm env \<Rightarrow> Tutorial \<Rightarrow> string \<Rightarrow> TutorialStep \<Rightarrow> world \<Rightarrow> unit result \<times> world" where
  "nextStep_switch env t base step w =
     (if Type step = ''image'' then
        (case renderBody env t step w of
           (Panic, w1) \<Rightarrow> (Panic, w1)
         | (Ret body, w1) \<Rightarrow>
             (let msg = ImageMessage ''m.image'' body (base @ Src step);
                  (e, w2) = SendMessageEvent env (cli t) (roomID t) ''m.room.message'' msg w1
              in (Ret (), emit (Log (if e then LogFailedImage else LogSendingImage body)) w2)))
      else if Type step = ''notice'' then
        (case renderBody env t step w of
           (Panic, w1) \<Rightarrow> (Panic, w1)
         | (Ret body, w1) \<Rightarrow>
             (let msg = TextMessage ''m.notice'' body;
                  (e, w2) = SendMessageEvent env (cli t) (roomID t) ''m.room.message'' msg w1
              in (Ret (),
                  emit (Log (if e then LogFailedNotice body else LogSendingNotice body)) w2)))
      else
        (case renderBody env t step w of
           (Panic, w1) \<Rightarrow> (Panic, w1)
         | (Ret body, w1) \<Rightarrow>
             (let msg = TextMessage ''m.text'' body;
                  (e, w2) = SendMessageEvent env (cli t) (roomID t) ''m.room.message'' msg w1
              in (Ret (),
                  emit (Log (if e then LogFailedText body else LogSendingText body)) w2))))"

text \<open>
  \<^verbatim>\<open>queueNextStep\<close> and \<^verbatim>\<open>nextStep\<close> call each other. \<^verbatim>\<open>nextStep\<close> has a value receiver:
  the increment is made on its copy \<open>t\<close> of the caller's struct, and it is the address of that
  copy that goes to \<^verbatim>\<open>queueNextStep\<close>. With a delay above zero \<^verbatim>\<open>queueNextStep\<close> makes a
  timer of \<^verbatim>\<open>time.Millisecond * delay\<close>, stores it in \<^verbatim>\<open>t.timer\<close> and waits for it; what it
  does after that is \<^verbatim>\<open>nextStep\<close> on the value then behind the pointer. An index below zero
  into the slice of steps is a panic in Go.
\<close>

function (sequential)
  queueNextStep :: "'tm env \<Rightarrow> Tutorial \<Rightarrow> Duration \<Rightarrow> world \<Rightarrow> outcome \<times> world" and
  nextStep :: "'tm env \<Rightarrow> Tutorial \<Rightarrow> world \<Rightarrow> outcome \<times> world"
where
  "queueNextStep env t delay w =
     (let w1 = (case timer t of None \<Rightarrow> w | Some k \<Rightarrow> StopTimer k w);
          w2 = emit (Log (LogQueueing (userID t) (currentStep t) delay)) w1
      in if 0 <s delay then
           (let (k, w3) = NewTimer (1000000 * delay) w2
            in (Blocked k (t\<lparr>timer := Some k\<rparr>), w3))
         else nextStep env t w2)"
| "nextStep env t0 w =
     (let t = t0\<lparr>currentStep := currentStep t0 + 1\<rparr>;
          w1 = emit (Log (LogPerforming (currentStep t) (userID t))) w
      in if currentStep t < int (length (Steps (tutorialFlow env))) then
           (if currentStep t < 0 then (Panicked, w1)
            else
              (let base = ResourcesBaseURL (tutorialFlow env);
                   step = Steps (tutorialFlow env) ! nat (currentStep t)
               in case nextStep_switch env t base step w1 of
                    (Panic, w2) \<Rightarrow> (Panicked, w2)
                  | (Ret u, w2) \<Rightarrow> queueNextStep env t (Delay step) w2))
         else (Returned, emit (Log LogEnded) w1))"
  by pat_completeness auto
termination
  by (relation "measure (\<lambda>x. case x of
         Inl (env, t, d, w) \<Rightarrow>
           2 * nat (int (length (Steps (tutorialFlow env))) - currentStep t) + 1
       | Inr (env, t, w) \<Rightarrow>
           2 * nat (int (length (Steps (tutorialFlow env))) - currentStep t))")
     auto

definition restart :: "'tm env \<Rightarrow> Tutorial \<Rightarrow> world \<Rightarrow> outcome \<times> world" where
  "restart env t w =
     (let w1 = (case timer t of None \<Rightarrow> w | Some k \<Rightarrow> StopTimer k w);
          t1 = t\<lparr>currentStep := - 1\<rparr>
      in queueNextStep env t1 (InitialDelay (tutorialFlow env)) w1)"

text \<open>
  What becomes of a goroutine when the chain of calls it runs has stopped. After
  \<^verbatim>\<open>tutorial.restart()\<close> has returned, \<^verbatim>\<open>initTutorialFlow\<close> logs the index and returns.
\<close>

fun finish :: "kont \<Rightarrow> outcome \<times> world \<Rightarrow> thread \<times> world" where
  "finish k (Blocked tm t, w) = (Waiting tm t k, w)"
| "finish k (Panicked, w) = (Crashed, w)"
| "finish Goroutine (Returned, w) = (Done None, w)"
| "finish (RestartCall i) (Returned, w) =
     (Done (Some ''Restarting Riot tutorial''), emit (Log (LogRestarting i)) w)"

text \<open>
  The loop \<^verbatim>\<open>for t := range tutorials\<close> of \<^verbatim>\<open>initTutorialFlow\<close>, from index \<open>i\<close> on. The
  assignment \<^verbatim>\<open>tutorial := tutorials[t]\<close> copies the struct out of the slice, and
  \<^verbatim>\<open>tutorial.restart()\<close> works on that copy, in the goroutine of the caller. \<open>None\<close> means
  that the loop ran to its end.
\<close>

fun initTutorialFlow_loop ::
  "'tm env \<Rightarrow> nat \<Rightarrow> Tutorial list \<Rightarrow> string \<Rightarrow> world \<Rightarrow> (thread \<times> world) option" where
  "initTutorialFlow_loop env i [] user w = None"
| "initTutorialFlow_loop env i (tutorial # rest) user w =
     (if userID tutorial = user
      then Some (finish (RestartCall i) (restart env tutorial w))
      else initTutorialFlow_loop env (Suc i) rest user w)"

text \<open>
  \<^verbatim>\<open>initTutorialFlow\<close>: the state of the calling goroutine and the world it leaves. On the
  second path \<^verbatim>\<open>append\<close> copies the new struct into the slice, and the \<^verbatim>\<open>go\<close> statement
  starts a goroutine on the local variable. The last log line prints that variable while the
  new goroutine may already be writing to it; the entry here carries the value it was made
  with. The command handler of \<^verbatim>\<open>Commands\<close> puts the returned string into a notice and is
  not modelled.
\<close>

definition initTutorialFlow ::
  "'tm env \<Rightarrow> nat \<Rightarrow> string \<Rightarrow> string \<Rightarrow> world \<Rightarrow> thread \<times> world" where
  "initTutorialFlow env c room user w =
     (case initTutorialFlow_loop env 0 (tutorials w) user w of
        Some r \<Rightarrow> r
      | None \<Rightarrow>
          (let w1 = emit (Log LogNotFound) w;
               tutorial = NewTutorial room user c (Templates (tutorialFlow env));
               w2 = w1\<lparr>tutorials := tutorials w1 @ [tutorial]\<rparr>;
               w3 = w2\<lparr>threads := threads w2 @
                      [Ready tutorial (InitialDelay (tutorialFlow env))]\<rparr>;
               w4 = emit (Log (LogStarting tutorial)) w3
           in (Done (Some ''Starting Riot tutorial''), w4)))"

subsection \<open>The process\<close>

text \<open>
  Three things happen in the process: the host calls the command \<^verbatim>\<open>start\<close> (in a goroutine
  of its own, which is added to the goroutines), a goroutine that is ready starts to run, and
  the timer that a goroutine waits for expires. Each makes one goroutine run until it ends or
  has to wait.
\<close>

datatype action = Start nat string string | Run nat | Fire nat

fun sys_step :: "'tm env \<Rightarrow> action \<Rightarrow> world \<Rightarrow> world" where
  "sys_step env (Start c room user) w =
     (let (th, w1) = initTutorialFlow env c room user w
      in w1\<lparr>threads := threads w1 @ [th]\<rparr>)"
| "sys_step env (Run i) w =
     (if i < length (threads w) then
        (case threads w ! i of
           Ready t d \<Rightarrow>
             (let (th, w1) = finish Goroutine (queueNextStep env t d w)
              in w1\<lparr>threads := (threads w1)[i := th]\<rparr>)
         | _ \<Rightarrow> w)
      else w)"
| "sys_step env (Fire i) w =
     (if i < length (threads w) then
        (case threads w ! i of
           Waiting k t kont \<Rightarrow>
             (if k < length (timers w) \<and> snd (timers w ! k) = Active then
                (let (th, w1) = finish kont (nextStep env t (FireTimer k w))
                 in w1\<lparr>threads := (threads w1)[i := th]\<rparr>)
              else w)
         | _ \<Rightarrow> w)
      else w)"

fun exec :: "'tm env \<Rightarrow> action list \<Rightarrow> world \<Rightarrow> world" where
  "exec env [] w = w"
| "exec env (a # as) w = exec env as (sys_step env a w)"

definition init_world :: world where
  "init_world = \<lparr>tutorials = [], timers = [], threads = [], trace = []\<rparr>"

subsection \<open>What is sent\<close>

text \<open>The calls of \<^verbatim>\<open>SendMessageEvent\<close> in a trace, in their order: client, room, event
  type and message.\<close>

fun sent :: "event list \<Rightarrow> (nat \<times> string \<times> string \<times> message) list" where
  "sent [] = []"
| "sent (Log l # es) = sent es"
| "sent (SendEvent c room ty msg # es) = (c, room, ty, msg) # sent es"

text \<open>The step numbers of the log lines \<^verbatim>\<open>Performing next step (%d) of tutorial for %s\<close> that a
  trace has for a user, in their order.\<close>

fun performed_steps :: "string \<Rightarrow> event list \<Rightarrow> int list" where
  "performed_steps user [] = []"
| "performed_steps user (Log (LogPerforming n u) # es) =
     (if u = user then n # performed_steps user es else performed_steps user es)"
| "performed_steps user (e # es) = performed_steps user es"

text \<open>The message that the \<^verbatim>\<open>switch\<close> builds for a step from the rendered body.\<close>

definition step_message :: "string \<Rightarrow> TutorialStep \<Rightarrow> string \<Rightarrow> message" where
  "step_message base step body =
     (if Type step = ''image'' then ImageMessage ''m.image'' body (base @ Src step)
      else if Type step = ''notice'' then TextMessage ''m.notice'' body
      else TextMessage ''m.text'' body)"

subsection \<open>Names for the parts of a run\<close>

text \<open>
  The world after the first statements of \<^verbatim>\<open>queueNextStep\<close> (the pending timer stopped, the
  line logged); the receiver of \<^verbatim>\<open>nextStep\<close> after its increment; the step it then reads; and
  what the \<^verbatim>\<open>switch\<close> makes of that step.
\<close>

definition queued :: "Tutorial \<Rightarrow> Duration \<Rightarrow> world \<Rightarrow> world" where
  "queued t d w =
     emit (Log (LogQueueing (userID t) (currentStep t) d))
       (case timer t of None \<Rightarrow> w | Some k \<Rightarrow> StopTimer k w)"

definition advanced :: "Tutorial \<Rightarrow> Tutorial" where
  "advanced t = t\<lparr>currentStep := currentStep t + 1\<rparr>"

definition the_step :: "'tm env \<Rightarrow> Tutorial \<Rightarrow> TutorialStep" where
  "the_step env t = Steps (tutorialFlow env) ! nat (currentStep t + 1)"

definition performed :: "'tm env \<Rightarrow> Tutorial \<Rightarrow> world \<Rightarrow> unit result \<times> world" where
  "performed env t w =
     nextStep_switch env (advanced t) (ResourcesBaseURL (tutorialFlow env)) (the_step env t)
       (emit (Log (LogPerforming (currentStep t + 1) (userID t))) w)"

text \<open>
  Every body of the flow is empty or a template that parses; the body that \<^verbatim>\<open>renderBody\<close>
  returns for a step; the call of \<^verbatim>\<open>SendMessageEvent\<close> for a step; the step an outcome has
  got to; the \<open>currentStep\<close> of the struct a goroutine works on, while it has not ended; and what
  a goroutine leaves when it ends.
\<close>

definition renders :: "'tm env \<Rightarrow> bool" where
  "renders env =
     (\<forall>step \<in> set (Steps (tutorialFlow env)). Body step = [] \<or> Parse env (Body step) \<noteq> None)"

definition rendered :: "'tm env \<Rightarrow> Tutorial \<Rightarrow> TutorialStep \<Rightarrow> string" where
  "rendered env t step = (case fst (renderBody env t step init_world) of Ret b \<Rightarrow> b | Panic \<Rightarrow> [])"

definition step_sent ::
  "'tm env \<Rightarrow> Tutorial \<Rightarrow> TutorialStep \<Rightarrow> nat \<times> string \<times> string \<times> message" where
  "step_sent env t step =
     (cli t, roomID t, ''m.room.message'',
      step_message (ResourcesBaseURL (tutorialFlow env)) step (rendered env t step))"

fun reached :: "'tm env \<Rightarrow> outcome \<Rightarrow> int" where
  "reached env (Blocked k t) = currentStep t"
| "reached env Returned = int (length (Steps (tutorialFlow env))) - 1"
| "reached env Panicked = int (length (Steps (tutorialFlow env))) - 1"

fun thread_step :: "thread \<Rightarrow> int option" where
  "thread_step (Ready t d) = Some (currentStep t)"
| "thread_step (Waiting k t kont) = Some (currentStep t)"
| "thread_step (Done r) = None"
| "thread_step Crashed = None"

fun returns :: "kont \<Rightarrow> string option" where
  "returns Goroutine = None"
| "returns (RestartCall i) = Some ''Restarting Riot tutorial''"

subsection \<open>An environment to evaluate in\<close>

text \<open>
  An instance of the template library for templates without actions: a body that has no left
  delimiter is a template that renders as itself, as it is with \<^verbatim>\<open>text/template\<close>. A body
  with a left delimiter is outside this fragment and is refused; that is what
  \<^verbatim>\<open>text/template\<close> does with the unclosed action \<^verbatim>\<open>{{\<close>, the only such body used below.
  Sending never fails.
\<close>

fun has_open :: "string \<Rightarrow> bool" where
  "has_open (a # b # cs) = ((a = CHR ''{'' \<and> b = CHR ''{'') \<or> has_open (b # cs))"
| "has_open cs = False"

definition plain_Parse :: "string \<Rightarrow> string option" where
  "plain_Parse s = (if has_open s then None else Some s)"

definition plain_env :: "TutorialFlow \<Rightarrow> string env" where
  "plain_env fl = \<lparr>tutorialFlow = fl, Parse = plain_Parse, Execute = (\<lambda>tm vars. Some tm),
     SendFails = (\<lambda>h c r ty m. False)\<rparr>"

definition flow_wait :: TutorialFlow where
  "flow_wait = \<lparr>ResourcesBaseURL = ''http://x/'', Templates = Map.empty, InitialDelay = 1,
     Steps = [\<lparr>Type = ''text'', Body = ''hi'', Src = [], Delay = 0\<rparr>]\<rparr>"

definition flow_bad :: TutorialFlow where
  "flow_bad = \<lparr>ResourcesBaseURL = ''http://x/'', Templates = Map.empty, InitialDelay = 0,
     Steps = [\<lparr>Type = ''text'', Body = ''{{'', Src = [], Delay = 0\<rparr>]\<rparr>"

definition flow_kinds :: TutorialFlow where
  "flow_kinds = \<lparr>ResourcesBaseURL = ''http://x/'', Templates = Map.empty, InitialDelay = 0,
     Steps = [\<lparr>Type = ''image'', Body = ''pic'', Src = ''a.png'', Delay = 0\<rparr>,
              \<lparr>Type = ''notice'', Body = ''note'', Src = [], Delay = 0\<rparr>,
              \<lparr>Type = ''video'', Body = ''other'', Src = [], Delay = 0\<rparr>]\<rparr>"

definition flow_two :: TutorialFlow where
  "flow_two = \<lparr>ResourcesBaseURL = ''http://x/'', Templates = Map.empty, InitialDelay = 1,
     Steps = [\<lparr>Type = ''text'', Body = ''a'', Src = [], Delay = 1\<rparr>,
              \<lparr>Type = ''text'', Body = ''b'', Src = [], Delay = 1\<rparr>]\<rparr>"

text \<open>A registry in which the user \<^verbatim>\<open>u\<close> has two entries, the first of them at index 1.\<close>

definition world_two_rooms :: world where
  "world_two_rooms = init_world\<lparr>tutorials :=
     [NewTutorial ''a'' ''v'' 0 Map.empty, NewTutorial ''r1'' ''u'' 0 Map.empty,
      NewTutorial ''r2'' ''u'' 0 Map.empty]\<rparr>"

declare queueNextStep.simps [simp del] nextStep.simps [simp del]

section \<open>Lemmas\<close>

subsection \<open>What each operation changes\<close>

lemma sent_append [simp]: "sent (xs @ ys) = sent xs @ sent ys"
  by (induction xs rule: sent.induct) auto

lemma emit_fields [simp]:
  "trace (emit e w) = trace w @ [e]"
  "tutorials (emit e w) = tutorials w"
  "timers (emit e w) = timers w"
  "threads (emit e w) = threads w"
  by (simp_all add: emit_def)

lemma StopTimer_fields [simp]:
  "trace (StopTimer k w) = trace w"
  "tutorials (StopTimer k w) = tutorials w"
  "threads (StopTimer k w) = threads w"
  "length (timers (StopTimer k w)) = length (timers w)"
  by (simp_all add: StopTimer_def)

lemma NewTimer_fields [simp]:
  "fst (NewTimer d w) = length (timers w)"
  "trace (snd (NewTimer d w)) = trace w"
  "tutorials (snd (NewTimer d w)) = tutorials w"
  "threads (snd (NewTimer d w)) = threads w"
  "timers (snd (NewTimer d w)) = timers w @ [(d, Active)]"
  by (simp_all add: NewTimer_def)

lemma FireTimer_fields [simp]:
  "trace (FireTimer k w) = trace w"
  "tutorials (FireTimer k w) = tutorials w"
  "threads (FireTimer k w) = threads w"
  "length (timers (FireTimer k w)) = length (timers w)"
  by (simp_all add: FireTimer_def)

lemma renderBody_frame [simp]:
  "tutorials (snd (renderBody env t ts w)) = tutorials w"
  "timers (snd (renderBody env t ts w)) = timers w"
  "threads (snd (renderBody env t ts w)) = threads w"
  "sent (trace (snd (renderBody env t ts w))) = sent (trace w)"
  by (simp_all add: renderBody_def split: option.splits)

lemma renderBody_trace: "\<exists>es. trace (snd (renderBody env t ts w)) = trace w @ es"
  by (simp add: renderBody_def split: option.splits)

lemma renderBody_value: "fst (renderBody env t ts w) = fst (renderBody env t ts w')"
  by (simp add: renderBody_def split: option.splits)

lemma renderBody_value_upd [simp]:
  "fst (renderBody env (t\<lparr>currentStep := c\<rparr>) ts w) = fst (renderBody env t ts w)"
  "fst (renderBody env (t\<lparr>timer := k\<rparr>) ts w) = fst (renderBody env t ts w)"
  by (simp_all add: renderBody_def split: option.splits)

lemma switch_frame [simp]:
  "tutorials (snd (nextStep_switch env t base step w)) = tutorials w"
  "timers (snd (nextStep_switch env t base step w)) = timers w"
  "threads (snd (nextStep_switch env t base step w)) = threads w"
  by (simp_all add: nextStep_switch_def SendMessageEvent_def Let_def case_prod_unfold split: result.splits)

lemma switch_trace: "\<exists>es. trace (snd (nextStep_switch env t base step w)) = trace w @ es"
  using renderBody_trace [of env t step w]
  by (auto simp add: nextStep_switch_def SendMessageEvent_def Let_def case_prod_unfold split: result.splits)

lemma switch_Ret:
  assumes "fst (renderBody env t step w) = Ret body"
  shows "fst (nextStep_switch env t base step w) = Ret ()"
    and "sent (trace (snd (nextStep_switch env t base step w))) =
           sent (trace w) @ [(cli t, roomID t, ''m.room.message'', step_message base step body)]"
  using assms renderBody_frame(4) [of env t step w]
  by (auto simp add: nextStep_switch_def SendMessageEvent_def step_message_def Let_def case_prod_unfold
      split: result.splits)

lemma switch_Panic:
  assumes "fst (renderBody env t step w) = Panic"
  shows "fst (nextStep_switch env t base step w) = Panic"
    and "sent (trace (snd (nextStep_switch env t base step w))) = sent (trace w)"
  using assms renderBody_frame(4) [of env t step w]
  by (auto simp add: nextStep_switch_def SendMessageEvent_def Let_def case_prod_unfold
      split: result.splits)

lemma queued_fields [simp]:
  "trace (queued t d w) = trace w @ [Log (LogQueueing (userID t) (currentStep t) d)]"
  "tutorials (queued t d w) = tutorials w"
  "threads (queued t d w) = threads w"
  "length (timers (queued t d w)) = length (timers w)"
  by (simp_all add: queued_def split: option.splits)

lemma advanced_fields [simp]:
  "currentStep (advanced t) = currentStep t + 1"
  "roomID (advanced t) = roomID t"
  "userID (advanced t) = userID t"
  "cli (advanced t) = cli t"
  "templates (advanced t) = templates t"
  "timer (advanced t) = timer t"
  by (simp_all add: advanced_def)

subsection \<open>The two functions, case by case\<close>

text \<open>The defining equations of \<^verbatim>\<open>queueNextStep\<close> and \<^verbatim>\<open>nextStep\<close>, one for each way through
  the function, and the induction and case rules that go with them.\<close>

lemma queueNextStep_blocks:
  "0 <s d \<Longrightarrow>
   queueNextStep env t d w =
     (Blocked (length (timers w)) (t\<lparr>timer := Some (length (timers w))\<rparr>),
      snd (NewTimer (1000000 * d) (queued t d w)))"
  by (simp add: queueNextStep.simps queued_def Let_def NewTimer_def split: option.splits)

lemma queueNextStep_now:
  "\<not> 0 <s d \<Longrightarrow> queueNextStep env t d w = nextStep env t (queued t d w)"
  by (simp add: queueNextStep.simps queued_def Let_def)

lemma nextStep_end:
  "\<not> currentStep t + 1 < int (length (Steps (tutorialFlow env))) \<Longrightarrow>
   nextStep env t w =
     (Returned,
      emit (Log LogEnded) (emit (Log (LogPerforming (currentStep t + 1) (userID t))) w))"
  by (simp add: nextStep.simps Let_def)

lemma nextStep_negative:
  "currentStep t + 1 < int (length (Steps (tutorialFlow env))) \<Longrightarrow> currentStep t + 1 < 0 \<Longrightarrow>
   nextStep env t w = (Panicked, emit (Log (LogPerforming (currentStep t + 1) (userID t))) w)"
  by (simp add: nextStep.simps Let_def)

lemma nextStep_panic:
  "currentStep t + 1 < int (length (Steps (tutorialFlow env))) \<Longrightarrow> 0 \<le> currentStep t + 1 \<Longrightarrow>
   fst (performed env t w) = Panic \<Longrightarrow>
   nextStep env t w = (Panicked, snd (performed env t w))"
  by (simp add: nextStep.simps Let_def performed_def advanced_def the_step_def case_prod_unfold)

lemma nextStep_step:
  "currentStep t + 1 < int (length (Steps (tutorialFlow env))) \<Longrightarrow> 0 \<le> currentStep t + 1 \<Longrightarrow>
   fst (performed env t w) = Ret u \<Longrightarrow>
   nextStep env t w =
     queueNextStep env (advanced t) (Delay (the_step env t)) (snd (performed env t w))"
  by (simp add: nextStep.simps Let_def performed_def advanced_def the_step_def case_prod_unfold)

lemma run_induct [case_names queue advance]:
  fixes env :: "'tm env"
  assumes queue: "\<And>t d w. (\<not> 0 <s d \<Longrightarrow> Q t (queued t d w)) \<Longrightarrow> P t d w"
    and nxt: "\<And>t w.
      (\<And>u. currentStep t + 1 < int (length (Steps (tutorialFlow env))) \<Longrightarrow>
            0 \<le> currentStep t + 1 \<Longrightarrow> fst (performed env t w) = Ret u \<Longrightarrow>
            P (advanced t) (Delay (the_step env t)) (snd (performed env t w))) \<Longrightarrow>
      Q t w"
  shows "P t d w" and "Q t' w'"
proof -
  have "env0 = env \<longrightarrow> P t d w" and "env0 = env \<longrightarrow> Q t' w'" for env0 :: "'tm env"
  proof (induction env0 t d w and env0 t' w' rule: queueNextStep_nextStep.induct)
    case (1 env0 t delay w)
    show ?case
    proof
      assume e: "env0 = env"
      show "P t delay w"
      proof (rule queue)
        assume "\<not> 0 <s delay"
        from "1.IH" [OF refl refl this] e show "Q t (queued t delay w)"
          by (simp add: queued_def)
      qed
    qed
  next
    case (2 env0 t0 w)
    show ?case
    proof
      assume e: "env0 = env"
      show "Q t0 w"
      proof (rule nxt)
        fix u
        assume a: "currentStep t0 + 1 < int (length (Steps (tutorialFlow env)))"
          "0 \<le> currentStep t0 + 1" "fst (performed env t0 w) = Ret u"
        have "P (t0\<lparr>currentStep := currentStep t0 + 1\<rparr>)
                (Delay (Steps (tutorialFlow env0) ! nat (currentStep (t0\<lparr>currentStep := currentStep t0 + 1\<rparr>))))
                (snd (nextStep_switch env0 (t0\<lparr>currentStep := currentStep t0 + 1\<rparr>)
                   (ResourcesBaseURL (tutorialFlow env0))
                   (Steps (tutorialFlow env0) ! nat (currentStep (t0\<lparr>currentStep := currentStep t0 + 1\<rparr>)))
                   (emit (Log (LogPerforming (currentStep (t0\<lparr>currentStep := currentStep t0 + 1\<rparr>))
                      (userID (t0\<lparr>currentStep := currentStep t0 + 1\<rparr>)))) w)))"
          using a e
          by (intro "2.IH" [OF refl refl _ _ refl refl prod.collapse, THEN mp, of u])
             (simp_all add: performed_def advanced_def the_step_def)
        then show "P (advanced t0) (Delay (the_step env t0)) (snd (performed env t0 w))"
          using e by (simp add: performed_def advanced_def the_step_def)
      qed
    qed
  qed
  then show "P t d w" and "Q t' w'" by simp_all
qed

lemma queueNextStep_cases [case_names blocks now]:
  obtains "0 <s d"
      "queueNextStep env t d w =
         (Blocked (length (timers w)) (t\<lparr>timer := Some (length (timers w))\<rparr>),
          snd (NewTimer (1000000 * d) (queued t d w)))"
  | "\<not> 0 <s d" "queueNextStep env t d w = nextStep env t (queued t d w)"
  using queueNextStep_blocks queueNextStep_now by blast

lemma nextStep_cases [case_names ended negative panic step]:
  obtains
    "\<not> currentStep t + 1 < int (length (Steps (tutorialFlow env)))"
    "nextStep env t w =
       (Returned,
        emit (Log LogEnded) (emit (Log (LogPerforming (currentStep t + 1) (userID t))) w))"
  | "currentStep t + 1 < int (length (Steps (tutorialFlow env)))" "currentStep t + 1 < 0"
    "nextStep env t w =
       (Panicked, emit (Log (LogPerforming (currentStep t + 1) (userID t))) w)"
  | "currentStep t + 1 < int (length (Steps (tutorialFlow env)))" "0 \<le> currentStep t + 1"
    "fst (performed env t w) = Panic"
    "nextStep env t w = (Panicked, snd (performed env t w))"
  | u where
    "currentStep t + 1 < int (length (Steps (tutorialFlow env)))" "0 \<le> currentStep t + 1"
    "fst (performed env t w) = Ret u"
    "nextStep env t w =
       queueNextStep env (advanced t) (Delay (the_step env t)) (snd (performed env t w))"
proof (cases "currentStep t + 1 < int (length (Steps (tutorialFlow env)))")
  case False
  then show ?thesis using that(1) nextStep_end by blast
next
  case inr: True
  show ?thesis
  proof (cases "currentStep t + 1 < 0")
    case True
    then show ?thesis using that(2) inr nextStep_negative by blast
  next
    case False
    then have nn: "0 \<le> currentStep t + 1" by simp
    show ?thesis
    proof (cases "fst (performed env t w)")
      case Panic
      then show ?thesis using that(3) inr nn nextStep_panic by blast
    next
      case (Ret u)
      then show ?thesis using that(4) inr nn nextStep_step by blast
    qed
  qed
qed

subsection \<open>What a run leaves alone, and where it stops\<close>

text \<open>A run changes neither the registry nor the goroutines, it only adds to the trace, and
  when it stops to wait it waits on a new timer with a struct whose counter has not gone
  down.\<close>

lemma performed_frame [simp]:
  "tutorials (snd (performed env t w)) = tutorials w"
  "timers (snd (performed env t w)) = timers w"
  "threads (snd (performed env t w)) = threads w"
  by (simp_all add: performed_def)

lemma performed_trace: "\<exists>es. trace (snd (performed env t w)) = trace w @ es"
  using switch_trace [of env "advanced t" "ResourcesBaseURL (tutorialFlow env)" "the_step env t"
      "emit (Log (LogPerforming (currentStep t + 1) (userID t))) w"]
  by (auto simp add: performed_def)

lemma run_frame:
  fixes env :: "'tm env"
  shows "tutorials (snd (queueNextStep env t d w)) = tutorials w \<and>
         threads (snd (queueNextStep env t d w)) = threads w"
    and "tutorials (snd (nextStep env t' w')) = tutorials w' \<and>
         threads (snd (nextStep env t' w')) = threads w'"
proof (induction t d w and t' w' rule: run_induct [where env = env])
  case (queue t d w)
  then show ?case by (cases rule: queueNextStep_cases [of d env t w]) simp_all
next
  case (advance t w)
  then show ?case by (cases rule: nextStep_cases [of t env w]) simp_all
qed

lemma run_trace:
  fixes env :: "'tm env"
  shows "\<exists>es. trace (snd (queueNextStep env t d w)) = trace w @ es"
    and "\<exists>es. trace (snd (nextStep env t' w')) = trace w' @ es"
proof (induction t d w and t' w' rule: run_induct [where env = env])
  case (queue t d w)
  then show ?case by (cases rule: queueNextStep_cases [of d env t w]) auto
next
  case (advance t w)
  then show ?case
    using performed_trace [of env t w]
    by (cases rule: nextStep_cases [of t env w]) auto
qed

lemma run_blocked:
  fixes env :: "'tm env"
  shows "fst (queueNextStep env t d w) = Blocked k t1 \<longrightarrow>
           currentStep t \<le> currentStep t1 \<and>
           (currentStep t < int (length (Steps (tutorialFlow env))) \<longrightarrow>
              currentStep t1 < int (length (Steps (tutorialFlow env)))) \<and>
           roomID t1 = roomID t \<and> userID t1 = userID t \<and> cli t1 = cli t \<and>
           templates t1 = templates t \<and> timer t1 = Some k \<and>
           k < length (timers (snd (queueNextStep env t d w))) \<and>
           snd (timers (snd (queueNextStep env t d w)) ! k) = Active"
    and "fst (nextStep env t' w') = Blocked k t1 \<longrightarrow>
           currentStep t' < currentStep t1 \<and>
           currentStep t1 < int (length (Steps (tutorialFlow env))) \<and>
           roomID t1 = roomID t' \<and> userID t1 = userID t' \<and> cli t1 = cli t' \<and>
           templates t1 = templates t' \<and> timer t1 = Some k \<and>
           k < length (timers (snd (nextStep env t' w'))) \<and>
           snd (timers (snd (nextStep env t' w')) ! k) = Active"
proof (induction t d w and t' w' rule: run_induct [where env = env])
  case (queue t d w)
  show ?case
  proof (cases rule: queueNextStep_cases [of d env t w])
    case blocks
    have "timers (snd (NewTimer (1000000 * d) (queued t d w))) ! length (timers (queued t d w))
            = (1000000 * d, Active)"
      unfolding NewTimer_fields by (rule nth_append_length)
    then show ?thesis using blocks by auto
  next
    case now
    then show ?thesis using queue by auto
  qed
next
  case (advance t w)
  show ?case
  proof (cases rule: nextStep_cases [of t env w])
    case (step u)
    then show ?thesis using advance [of u] by auto
  qed simp_all
qed

subsection \<open>What a run sends\<close>

text \<open>In a flow whose bodies render a run does not panic, and it sends the messages of the
  steps after its counter, in their order, up to the step it stops at.\<close>

lemma renders_Ret:
  "renders env \<Longrightarrow> step \<in> set (Steps (tutorialFlow env)) \<Longrightarrow>
   fst (renderBody env t step w) = Ret (rendered env t step)"
  by (auto simp add: renders_def rendered_def renderBody_def split: option.splits)

lemma step_sent_cong:
  "cli t1 = cli t \<Longrightarrow> roomID t1 = roomID t \<Longrightarrow> templates t1 = templates t \<Longrightarrow>
   step_sent env t1 = step_sent env t"
  by (rule ext) (simp add: step_sent_def rendered_def renderBody_def split: option.splits)

lemma performed_sent:
  assumes "renders env" "0 \<le> currentStep t + 1"
    "currentStep t + 1 < int (length (Steps (tutorialFlow env)))"
  shows "fst (performed env t w) = Ret ()"
    and "sent (trace (snd (performed env t w))) =
           sent (trace w) @ [step_sent env t (the_step env t)]"
proof -
  have mem: "the_step env t \<in> set (Steps (tutorialFlow env))"
    using assms(2,3) by (simp add: the_step_def)
  have r: "fst (renderBody env (advanced t) (the_step env t)
                 (emit (Log (LogPerforming (currentStep t + 1) (userID t))) w))
             = Ret (rendered env (advanced t) (the_step env t))"
    by (rule renders_Ret [OF assms(1) mem])
  have c: "step_sent env (advanced t) = step_sent env t"
    by (rule step_sent_cong) simp_all
  show "fst (performed env t w) = Ret ()"
    unfolding performed_def by (rule switch_Ret(1) [OF r])
  show "sent (trace (snd (performed env t w))) =
           sent (trace w) @ [step_sent env t (the_step env t)]"
    unfolding performed_def using switch_Ret(2) [OF r] c [symmetric]
    by (simp add: step_sent_def)
qed

lemma run_no_panic:
  fixes env :: "'tm env"
  assumes "renders env"
  shows "- 1 \<le> currentStep t \<longrightarrow> fst (queueNextStep env t d w) \<noteq> Panicked"
    and "- 1 \<le> currentStep t' \<longrightarrow> fst (nextStep env t' w') \<noteq> Panicked"
proof (induction t d w and t' w' rule: run_induct [where env = env])
  case (queue t d w)
  then show ?case by (cases rule: queueNextStep_cases [of d env t w]) auto
next
  case (advance t w)
  show ?case
  proof (cases rule: nextStep_cases [of t env w])
    case (step u)
    then show ?thesis using advance [of u] by auto
  next
    case panic
    then show ?thesis using performed_sent(1) [OF assms, of t w] by auto
  qed auto
qed

lemma run_sent:
  fixes env :: "'tm env"
  assumes "renders env"
  shows "- 1 \<le> currentStep t \<longrightarrow>
           sent (trace (snd (queueNextStep env t d w))) =
             sent (trace w) @
             map (step_sent env t)
               (take (nat (reached env (fst (queueNextStep env t d w)) - currentStep t))
                  (drop (nat (currentStep t + 1)) (Steps (tutorialFlow env))))"
    and "- 1 \<le> currentStep t' \<longrightarrow>
           sent (trace (snd (nextStep env t' w'))) =
             sent (trace w') @
             map (step_sent env t')
               (take (nat (reached env (fst (nextStep env t' w')) - currentStep t'))
                  (drop (nat (currentStep t' + 1)) (Steps (tutorialFlow env))))"
proof (induction t d w and t' w' rule: run_induct [where env = env])
  case (queue t d w)
  then show ?case by (cases rule: queueNextStep_cases [of d env t w]) auto
next
  case (advance t w)
  show ?case
  proof (cases rule: nextStep_cases [of t env w])
    case (step u)
    let ?r = "fst (queueNextStep env (advanced t) (Delay (the_step env t)) (snd (performed env t w)))"
    let ?S = "Steps (tutorialFlow env)"
    show ?thesis
    proof
      assume lo: "- 1 \<le> currentStep t"
      have c: "step_sent env (advanced t) = step_sent env t"
        by (rule step_sent_cong) simp_all
      have ge: "currentStep t + 1 \<le> reached env ?r"
      proof (cases ?r)
        case (Blocked k t1)
        then show ?thesis
          using run_blocked(1) [of env "advanced t" "Delay (the_step env t)" "snd (performed env t w)" k t1]
          by simp
      qed (use step in simp_all)
      have ix: "nat (currentStep t + 1) < length ?S" using step lo by simp
      have e1: "nat (2 + currentStep t) = Suc (nat (currentStep t + 1))"
        using lo by simp
      have "sent (trace (snd (nextStep env t w))) =
              sent (trace w) @ step_sent env t (the_step env t) #
              map (step_sent env t)
                (take (nat (reached env ?r - (currentStep t + 1)))
                   (drop (Suc (nat (currentStep t + 1))) ?S))"
        using advance [of u] step lo performed_sent(2) [OF assms, of t w] c e1
        by simp
      also have "step_sent env t (the_step env t) #
              map (step_sent env t)
                (take (nat (reached env ?r - (currentStep t + 1)))
                   (drop (Suc (nat (currentStep t + 1))) ?S))
            = map (step_sent env t)
                (take (Suc (nat (reached env ?r - (currentStep t + 1))))
                   (drop (nat (currentStep t + 1)) ?S))"
        using ix by (simp add: the_step_def Cons_nth_drop_Suc [symmetric])
      also have "Suc (nat (reached env ?r - (currentStep t + 1))) = nat (reached env ?r - currentStep t)"
        using ge by simp
      finally show "sent (trace (snd (nextStep env t w))) =
             sent (trace w) @
             map (step_sent env t)
               (take (nat (reached env (fst (nextStep env t w)) - currentStep t))
                  (drop (nat (currentStep t + 1)) ?S))"
        using step by simp
    qed
  next
    case panic
    then show ?thesis using performed_sent(1) [OF assms, of t w] by auto
  qed auto
qed

subsection \<open>From timer to timer\<close>

text \<open>A goroutine that waits, in a flow whose bodies render, ends once its timers have
  expired, and has then sent the messages of all the steps that were left.\<close>

lemma finish_fields [simp]:
  "tutorials (snd (finish kont r)) = tutorials (snd r)"
  "timers (snd (finish kont r)) = timers (snd r)"
  "threads (snd (finish kont r)) = threads (snd r)"
  "sent (trace (snd (finish kont r))) = sent (trace (snd r))"
  by (cases kont; cases r; cases "fst r"; simp)+

lemma finish_thread:
  "fst r = Blocked k t \<Longrightarrow> fst (finish kont r) = Waiting k t kont"
  "fst r = Returned \<Longrightarrow> fst (finish kont r) = Done (returns kont)"
  "fst r = Panicked \<Longrightarrow> fst (finish kont r) = Crashed"
  by (cases kont; cases r; simp)+

lemma fire_waiting:
  assumes "i < length (threads w)" "threads w ! i = Waiting k t kont"
    "k < length (timers w)" "snd (timers w ! k) = Active"
  shows "sys_step env (Fire i) w =
           (snd (finish kont (nextStep env t (FireTimer k w))))
             \<lparr>threads := (threads w)[i := fst (finish kont (nextStep env t (FireTimer k w)))]\<rparr>"
  using assms run_frame(2) [of env t "FireTimer k w"]
  by (simp add: case_prod_unfold Let_def)

lemma fire_done:
  "i < length (threads w) \<Longrightarrow> threads w ! i = Done r \<Longrightarrow>
   exec env (replicate n (Fire i)) w = w"
  by (induction n) simp_all

lemma drive:
  fixes env :: "'tm env"
  assumes "renders env"
  shows "i < length (threads w) \<Longrightarrow> threads w ! i = Waiting k t kont \<Longrightarrow>
     k < length (timers w) \<Longrightarrow> snd (timers w ! k) = Active \<Longrightarrow>
     - 1 \<le> currentStep t \<Longrightarrow> currentStep t < int (length (Steps (tutorialFlow env))) \<Longrightarrow>
     nat (int (length (Steps (tutorialFlow env))) - currentStep t) \<le> n \<Longrightarrow>
     threads (exec env (replicate n (Fire i)) w) = (threads w)[i := Done (returns kont)] \<and>
     tutorials (exec env (replicate n (Fire i)) w) = tutorials w \<and>
     sent (trace (exec env (replicate n (Fire i)) w)) =
       sent (trace w) @
       map (step_sent env t) (drop (nat (currentStep t + 1)) (Steps (tutorialFlow env)))"
proof (induction n arbitrary: w k t)
  case 0
  then show ?case by simp
next
  case (Suc n)
  let ?S = "Steps (tutorialFlow env)"
  let ?r = "nextStep env t (FireTimer k w)"
  let ?w1 = "sys_step env (Fire i) w"
  have w1: "?w1 = (snd (finish kont ?r))\<lparr>threads := (threads w)[i := fst (finish kont ?r)]\<rparr>"
    by (rule fire_waiting [OF Suc.prems(1-4)])
  have np: "fst ?r \<noteq> Panicked"
    using run_no_panic(2) [OF assms, of t "FireTimer k w"] Suc.prems(5) by simp
  have sn: "sent (trace (snd ?r)) =
      sent (trace w) @
      map (step_sent env t) (take (nat (reached env (fst ?r) - currentStep t))
        (drop (nat (currentStep t + 1)) ?S))"
    using run_sent(2) [OF assms, of t "FireTimer k w"] Suc.prems(5) by simp
  have fr: "tutorials (snd ?r) = tutorials w"
    using run_frame(2) [of env t "FireTimer k w"] by simp
  show ?case
  proof (cases "fst ?r")
    case Panicked
    with np show ?thesis by simp
  next
    case Returned
    have th: "threads ?w1 = (threads w)[i := Done (returns kont)]"
      using w1 finish_thread(2) [OF Returned, of kont] by simp
    have "nat (reached env (fst ?r) - currentStep t) \<ge> length (drop (nat (currentStep t + 1)) ?S)"
      using Returned Suc.prems(5,6) by simp
    then have all: "take (nat (reached env (fst ?r) - currentStep t)) (drop (nat (currentStep t + 1)) ?S)
        = drop (nat (currentStep t + 1)) ?S"
      by (rule take_all)
    have "exec env (replicate n (Fire i)) ?w1 = ?w1"
      by (rule fire_done [where r = "returns kont"]) (use th Suc.prems(1) in simp_all)
    then show ?thesis using th w1 sn fr all by simp
  next
    case (Blocked k1 t1)
    note b = run_blocked(2) [of env t "FireTimer k w" k1 t1, THEN mp, OF Blocked]
    have th: "threads ?w1 = (threads w)[i := Waiting k1 t1 kont]"
      using w1 finish_thread(1) [OF Blocked, of kont] by simp
    have ih: "threads (exec env (replicate n (Fire i)) ?w1) = (threads ?w1)[i := Done (returns kont)] \<and>
       tutorials (exec env (replicate n (Fire i)) ?w1) = tutorials ?w1 \<and>
       sent (trace (exec env (replicate n (Fire i)) ?w1)) =
         sent (trace ?w1) @ map (step_sent env t1) (drop (nat (currentStep t1 + 1)) ?S)"
    proof (rule Suc.IH)
      show "i < length (threads ?w1)" using th Suc.prems(1) by simp
      show "threads ?w1 ! i = Waiting k1 t1 kont" using th Suc.prems(1) by simp
      show "k1 < length (timers ?w1)" using b w1 by simp
      show "snd (timers ?w1 ! k1) = Active" using b w1 by simp
      show "- 1 \<le> currentStep t1" using b Suc.prems(5) by simp
      show "currentStep t1 < int (length ?S)" using b by simp
      show "nat (int (length ?S) - currentStep t1) \<le> n" using b Suc.prems(7) by auto
    qed
    have c: "step_sent env t1 = step_sent env t"
      by (rule step_sent_cong) (use b in simp_all)
    have "take (nat (currentStep t1 - currentStep t)) (drop (nat (currentStep t + 1)) ?S)
            @ drop (nat (currentStep t1 + 1)) ?S
          = drop (nat (currentStep t + 1)) ?S"
    proof -
      have "nat (currentStep t1 + 1) = nat (currentStep t1 - currentStep t) + nat (currentStep t + 1)"
        using b Suc.prems(5) by auto
      then have "drop (nat (currentStep t1 + 1)) ?S
          = drop (nat (currentStep t1 - currentStep t)) (drop (nat (currentStep t + 1)) ?S)"
        by (simp only: drop_drop)
      then show ?thesis by (simp only: append_take_drop_id)
    qed
    then have "map (step_sent env t) (take (nat (currentStep t1 - currentStep t)) (drop (nat (currentStep t + 1)) ?S))
            @ map (step_sent env t) (drop (nat (currentStep t1 + 1)) ?S)
          = map (step_sent env t) (drop (nat (currentStep t + 1)) ?S)"
      unfolding map_append [symmetric] by simp
    then show ?thesis using ih th w1 sn fr c Blocked by simp
  qed
qed

text \<open>The equations that evaluate a run at a given input.\<close>

lemmas eval_defs = plain_env_def plain_Parse_def init_world_def initTutorialFlow_def NewTutorial_def
  emit_def Let_def restart_def NewTimer_def StopTimer_def FireTimer_def renderBody_def
  nextStep_switch_def SendMessageEvent_def queueNextStep_blocks queueNextStep_now
  nextStep_end nextStep_negative nextStep_panic nextStep_step performed_def advanced_def
  the_step_def queued_def word_sless_alt

section \<open>The claims\<close>

subsection \<open>Rendering\<close>

lemma renderBody_parse_error:
  "Body ts \<noteq> [] \<Longrightarrow> Parse env (Body ts) = None \<Longrightarrow>
   renderBody env t ts w = (Panic, emit (Log LogFailedCreateTemplate) w)"
  by (simp add: renderBody_def)

text \<open>
  Claim C3 says that \<^verbatim>\<open>renderBody\<close> on a body that does not parse logs the failure and returns
  the empty string. The code logs the failure and does not return: it calls \<^verbatim>\<open>Execute\<close> on the
  nil template, which panics. For the body \<^verbatim>\<open>{{\<close>, an unclosed action, the outcome is the log
  entry and the panic.
\<close>

theorem renderBody_malformed_template_panics:
  "renderBody (plain_env fl) t \<lparr>Type = ty, Body = ''{{'', Src = src, Delay = d\<rparr> w =
     (Panic, emit (Log LogFailedCreateTemplate) w)"
  by (rule renderBody_parse_error) (simp_all add: plain_env_def plain_Parse_def)

subsection \<open>Restarting\<close>

text \<open>
  Claim C1 says that after a restart no step of the earlier run is sent. In the code
  \<^verbatim>\<open>restart\<close> works on a copy of the registry entry, whose \<^verbatim>\<open>timer\<close> is nil, so it stops
  no timer. With an initial delay of 1 and one step: the user starts the tutorial, the
  goroutine waits on timer 0, the user starts again. Timer 0 is still active; when it expires
  the earlier run sends its step, and the restarted run sends the step once more.
\<close>

theorem restart_leaves_the_earlier_run_going:
  "snd (timers (exec (plain_env flow_wait)
      [Start 0 ''r'' ''u'', Run 0, Start 0 ''r'' ''u''] init_world) ! 0) = Active \<and>
   sent (trace (exec (plain_env flow_wait)
      [Start 0 ''r'' ''u'', Run 0, Start 0 ''r'' ''u''] init_world)) = [] \<and>
   sent (trace (exec (plain_env flow_wait)
      [Start 0 ''r'' ''u'', Run 0, Start 0 ''r'' ''u'', Fire 0] init_world)) =
     [(0, ''r'', ''m.room.message'', TextMessage ''m.text'' ''hi'')] \<and>
   sent (trace (exec (plain_env flow_wait)
      [Start 0 ''r'' ''u'', Run 0, Start 0 ''r'' ''u'', Fire 0, Fire 2] init_world)) =
     [(0, ''r'', ''m.room.message'', TextMessage ''m.text'' ''hi''),
      (0, ''r'', ''m.room.message'', TextMessage ''m.text'' ''hi'')]"
  by (simp add: eval_defs flow_wait_def)

text \<open>
  Claim C2 says that the entry point returns without waiting for a delay, also when it
  restarts. In the code the new session is run by a \<^verbatim>\<open>go\<close> statement, and the restart is
  not: \<^verbatim>\<open>tutorial.restart()\<close> runs in the caller. With an initial delay of 1, the second
  call for the same user has not returned: it waits in \<^verbatim>\<open><-t.timer.C\<close> for the timer it made.
\<close>

theorem restart_call_waits_for_its_timer:
  "fst (initTutorialFlow (plain_env flow_wait) 0 ''r'' ''u''
         (exec (plain_env flow_wait) [Start 0 ''r'' ''u''] init_world)) =
     Waiting 0
       \<lparr>roomID = ''r'', userID = ''u'', currentStep = - 1, timer = Some 0, cli = 0,
        templates = Map.empty\<rparr>
       (RestartCall 0)"
  by (simp add: eval_defs flow_wait_def)

subsection \<open>A whole run\<close>

text \<open>
  Claim C4 says that a session that is never restarted sends one message for each step of
  the flow. In the code a step whose body does not parse ends the session with the panic of
  \<^verbatim>\<open>renderBody\<close>: for the flow of one step with the body \<^verbatim>\<open>{{\<close> the goroutine has crashed
  and nothing was sent.
\<close>

theorem malformed_step_ends_the_session_without_a_send:
  "threads (exec (plain_env flow_bad) [Start 0 ''r'' ''u'', Run 0] init_world) =
     [Crashed, Done (Some ''Starting Riot tutorial'')] \<and>
   sent (trace (exec (plain_env flow_bad) [Start 0 ''r'' ''u'', Run 0] init_world)) = [] \<and>
   length (Steps flow_bad) = 1"
  by (simp add: eval_defs flow_bad_def)

subsection \<open>The message of a step\<close>

lemma nextStep_first_sent:
  assumes "0 \<le> currentStep t + 1"
    and "currentStep t + 1 < int (length (Steps (tutorialFlow env)))"
    and "fst (renderBody env t (the_step env t) w0) = Ret body"
  shows "\<exists>rest. sent (trace (snd (nextStep env t w))) =
           sent (trace w) @
           (cli t, roomID t, ''m.room.message'',
            step_message (ResourcesBaseURL (tutorialFlow env)) (the_step env t) body) # rest"
proof -
  let ?W = "emit (Log (LogPerforming (currentStep t + 1) (userID t))) w"
  have "fst (renderBody env (advanced t) (the_step env t) ?W) =
          fst (renderBody env t (the_step env t) w0)"
    unfolding advanced_def renderBody_value_upd by (rule renderBody_value)
  then have r: "fst (renderBody env (advanced t) (the_step env t) ?W) = Ret body"
    using assms(3) by simp
  have p1: "fst (performed env t w) = Ret ()"
    unfolding performed_def by (rule switch_Ret(1) [OF r])
  have p2: "sent (trace (snd (performed env t w))) =
      sent (trace w) @
      [(cli t, roomID t, ''m.room.message'',
        step_message (ResourcesBaseURL (tutorialFlow env)) (the_step env t) body)]"
    unfolding performed_def using switch_Ret(2) [OF r] by simp
  have n: "nextStep env t w =
      queueNextStep env (advanced t) (Delay (the_step env t)) (snd (performed env t w))"
    by (rule nextStep_step [OF assms(2) assms(1) p1])
  obtain es where "trace (snd (nextStep env t w)) = trace (snd (performed env t w)) @ es"
    using run_trace(1) [of env "advanced t" "Delay (the_step env t)" "snd (performed env t w)"] n
    by auto
  then have "sent (trace (snd (nextStep env t w))) =
      sent (trace w) @
      (cli t, roomID t, ''m.room.message'',
        step_message (ResourcesBaseURL (tutorialFlow env)) (the_step env t) body) # sent es"
    using p2 by simp
  then show ?thesis by blast
qed

text \<open>
  Claim C8. When \<^verbatim>\<open>nextStep\<close> comes to a step of type \<^verbatim>\<open>image\<close> whose body renders, the
  first thing it sends is an image message whose URL is \<^verbatim>\<open>ResourcesBaseURL\<close> followed by
  the \<^verbatim>\<open>src\<close> of the step, the two strings put together and nothing else done to them. With
  the base \<^verbatim>\<open>http://x/\<close> and the source \<^verbatim>\<open>a.png\<close> the URL is \<^verbatim>\<open>http://x/a.png\<close>.
\<close>

theorem image_url_is_base_followed_by_src:
  assumes "0 \<le> currentStep t + 1"
    and "currentStep t + 1 < int (length (Steps (tutorialFlow env)))"
    and "step = Steps (tutorialFlow env) ! nat (currentStep t + 1)"
    and "Type step = ''image''"
    and "fst (renderBody env t step w) = Ret body"
  shows "\<exists>rest. sent (trace (snd (nextStep env t w))) =
           sent (trace w) @
           (cli t, roomID t, ''m.room.message'',
            ImageMessage ''m.image'' body (ResourcesBaseURL (tutorialFlow env) @ Src step)) # rest"
proof -
  have s: "the_step env t = step"
    using assms(3) by (simp add: the_step_def)
  have "fst (renderBody env t (the_step env t) w) = Ret body"
    unfolding s by (rule assms(5))
  from nextStep_first_sent [OF assms(1,2) this, of w]
  show ?thesis unfolding s step_message_def using assms(4) by simp
qed

theorem image_url_is_base_followed_by_src_witness:
  "\<exists>rest. sent (trace (snd (nextStep (plain_env flow_kinds)
       (NewTutorial ''r'' ''u'' 0 Map.empty) init_world))) =
     (0, ''r'', ''m.room.message'', ImageMessage ''m.image'' ''pic'' ''http://x/a.png'') # rest"
proof -
  let ?t = "NewTutorial ''r'' ''u'' 0 Map.empty"
  let ?env = "plain_env flow_kinds"
  let ?step = "\<lparr>Type = ''image'', Body = ''pic'', Src = ''a.png'', Delay = 0\<rparr>"
  have h1: "0 \<le> currentStep ?t + 1" by (simp add: NewTutorial_def)
  have h2: "currentStep ?t + 1 < int (length (Steps (tutorialFlow ?env)))"
    by (simp add: NewTutorial_def plain_env_def flow_kinds_def)
  have h3: "?step = Steps (tutorialFlow ?env) ! nat (currentStep ?t + 1)"
    by (simp add: NewTutorial_def plain_env_def flow_kinds_def)
  have h4: "Type ?step = ''image''" by simp
  have h5: "fst (renderBody ?env ?t ?step init_world) = Ret ''pic''"
    by (simp add: renderBody_def plain_env_def plain_Parse_def)
  from image_url_is_base_followed_by_src [OF h1 h2 h3 h4 h5]
  show ?thesis
    by (simp add: NewTutorial_def plain_env_def flow_kinds_def init_world_def)
qed

text \<open>
  Claim C9. The message \<^verbatim>\<open>nextStep\<close> sends for a step whose body renders follows the type
  of the step: for \<^verbatim>\<open>image\<close> an image message of type \<^verbatim>\<open>m.image\<close> with the rendered body
  and the URL, for \<^verbatim>\<open>notice\<close> a text message of type \<^verbatim>\<open>m.notice\<close> with the rendered body,
  and for every other type a text message of type \<^verbatim>\<open>m.text\<close> with the rendered body.
\<close>

theorem message_kind_follows_step_type:
  assumes "0 \<le> currentStep t + 1"
    and "currentStep t + 1 < int (length (Steps (tutorialFlow env)))"
    and "step = Steps (tutorialFlow env) ! nat (currentStep t + 1)"
    and "fst (renderBody env t step w) = Ret body"
  shows "\<exists>rest. sent (trace (snd (nextStep env t w))) =
           sent (trace w) @
           (cli t, roomID t, ''m.room.message'',
            (if Type step = ''image''
             then ImageMessage ''m.image'' body (ResourcesBaseURL (tutorialFlow env) @ Src step)
             else if Type step = ''notice'' then TextMessage ''m.notice'' body
             else TextMessage ''m.text'' body)) # rest"
proof -
  have s: "the_step env t = step"
    using assms(3) by (simp add: the_step_def)
  have "fst (renderBody env t (the_step env t) w) = Ret body"
    unfolding s by (rule assms(4))
  from nextStep_first_sent [OF assms(1,2) this, of w]
  show ?thesis unfolding s step_message_def .
qed

theorem message_kind_follows_step_type_witness:
  "(\<exists>rest. sent (trace (snd (nextStep (plain_env flow_kinds)
       (NewTutorial ''r'' ''u'' 0 Map.empty\<lparr>currentStep := 1\<rparr>) init_world))) =
     (0, ''r'', ''m.room.message'', TextMessage ''m.text'' ''other'') # rest) \<and>
   (\<exists>rest. sent (trace (snd (nextStep (plain_env flow_kinds)
       (NewTutorial ''r'' ''u'' 0 Map.empty\<lparr>currentStep := 0\<rparr>) init_world))) =
     (0, ''r'', ''m.room.message'', TextMessage ''m.notice'' ''note'') # rest)"
proof -
  let ?env = "plain_env flow_kinds"
  let ?t = "NewTutorial ''r'' ''u'' 0 Map.empty\<lparr>currentStep := 1\<rparr>"
  let ?step = "\<lparr>Type = ''video'', Body = ''other'', Src = [], Delay = 0\<rparr>"
  let ?t' = "NewTutorial ''r'' ''u'' 0 Map.empty\<lparr>currentStep := 0\<rparr>"
  let ?step' = "\<lparr>Type = ''notice'', Body = ''note'', Src = [], Delay = 0\<rparr>"
  have h1: "0 \<le> currentStep ?t + 1" by simp
  have h2: "currentStep ?t + 1 < int (length (Steps (tutorialFlow ?env)))"
    by (simp add: plain_env_def flow_kinds_def)
  have h3: "?step = Steps (tutorialFlow ?env) ! nat (currentStep ?t + 1)"
    by (simp add: plain_env_def flow_kinds_def)
  have h4: "fst (renderBody ?env ?t ?step init_world) = Ret ''other''"
    by (simp add: renderBody_def plain_env_def plain_Parse_def)
  have g1: "0 \<le> currentStep ?t' + 1" by simp
  have g2: "currentStep ?t' + 1 < int (length (Steps (tutorialFlow ?env)))"
    by (simp add: plain_env_def flow_kinds_def)
  have g3: "?step' = Steps (tutorialFlow ?env) ! nat (currentStep ?t' + 1)"
    by (simp add: plain_env_def flow_kinds_def)
  have g4: "fst (renderBody ?env ?t' ?step' init_world) = Ret ''note''"
    by (simp add: renderBody_def plain_env_def plain_Parse_def)
  from message_kind_follows_step_type [OF h1 h2 h3 h4]
    message_kind_follows_step_type [OF g1 g2 g3 g4]
  show ?thesis
    by (simp add: NewTutorial_def init_world_def)
qed

subsection \<open>The entry point\<close>

lemma restart_frame [simp]:
  "tutorials (snd (restart env t w)) = tutorials w"
  "threads (snd (restart env t w)) = threads w"
  using run_frame(1) [of env "t\<lparr>currentStep := - 1\<rparr>" "InitialDelay (tutorialFlow env)"]
  by (simp_all add: restart_def Let_def split: option.splits)

lemma loop_first_match:
  "i < length ts \<Longrightarrow> userID (ts ! i) = user \<Longrightarrow> (\<forall>j<i. userID (ts ! j) \<noteq> user) \<Longrightarrow>
   initTutorialFlow_loop env n ts user w =
     Some (finish (RestartCall (n + i)) (restart env (ts ! i) w))"
proof (induction ts arbitrary: i n)
  case Nil
  then show ?case by simp
next
  case (Cons x xs)
  show ?case
  proof (cases i)
    case 0
    then show ?thesis using Cons.prems by simp
  next
    case (Suc i')
    have "userID x \<noteq> user" using Cons.prems(3) Suc by auto
    moreover have "initTutorialFlow_loop env (Suc n) xs user w =
        Some (finish (RestartCall (Suc n + i')) (restart env (xs ! i') w))"
      using Cons.prems Suc by (intro Cons.IH) auto
    ultimately show ?thesis using Suc by simp
  qed
qed

lemma loop_no_match:
  "(\<forall>x \<in> set ts. userID x \<noteq> user) \<Longrightarrow> initTutorialFlow_loop env n ts user w = None"
  by (induction ts arbitrary: n) simp_all

text \<open>
  Claim C7. \<^verbatim>\<open>initTutorialFlow\<close> looks the user up in the registry from the front. When
  \<open>i\<close> is the first index whose entry has the user's identifier, the call is the restart of
  that entry (of the value stored there) followed by the return of the restart path, whatever
  the room, and the registry and the goroutines stay as they are. When no entry has the
  user's identifier, the call appends a new \<^verbatim>\<open>Tutorial\<close> to the registry, starts a goroutine
  for it and returns.
\<close>

theorem start_restarts_first_match_or_appends:
  "(i < length (tutorials w) \<and> userID (tutorials w ! i) = user \<and>
      (\<forall>j<i. userID (tutorials w ! j) \<noteq> user) \<longrightarrow>
      initTutorialFlow env c room user w =
        finish (RestartCall i) (restart env (tutorials w ! i) w) \<and>
      tutorials (snd (initTutorialFlow env c room user w)) = tutorials w \<and>
      threads (snd (initTutorialFlow env c room user w)) = threads w) \<and>
   ((\<forall>x \<in> set (tutorials w). userID x \<noteq> user) \<longrightarrow>
      fst (initTutorialFlow env c room user w) = Done (Some ''Starting Riot tutorial'') \<and>
      tutorials (snd (initTutorialFlow env c room user w)) =
        tutorials w @ [NewTutorial room user c (Templates (tutorialFlow env))] \<and>
      threads (snd (initTutorialFlow env c room user w)) =
        threads w @ [Ready (NewTutorial room user c (Templates (tutorialFlow env)))
                       (InitialDelay (tutorialFlow env))])"
proof (intro conjI impI)
  assume a: "i < length (tutorials w) \<and> userID (tutorials w ! i) = user \<and>
      (\<forall>j<i. userID (tutorials w ! j) \<noteq> user)"
  then have l: "initTutorialFlow_loop env 0 (tutorials w) user w =
      Some (finish (RestartCall (0 + i)) (restart env (tutorials w ! i) w))"
    by (intro loop_first_match) auto
  then show e: "initTutorialFlow env c room user w =
      finish (RestartCall i) (restart env (tutorials w ! i) w)"
    by (simp add: initTutorialFlow_def)
  show "tutorials (snd (initTutorialFlow env c room user w)) = tutorials w"
    unfolding e by simp
  show "threads (snd (initTutorialFlow env c room user w)) = threads w"
    unfolding e by simp
next
  assume "\<forall>x \<in> set (tutorials w). userID x \<noteq> user"
  then have l: "initTutorialFlow_loop env 0 (tutorials w) user w = None"
    by (rule loop_no_match)
  show "fst (initTutorialFlow env c room user w) = Done (Some ''Starting Riot tutorial'')"
    using l by (simp add: initTutorialFlow_def Let_def)
  show "tutorials (snd (initTutorialFlow env c room user w)) =
        tutorials w @ [NewTutorial room user c (Templates (tutorialFlow env))]"
    using l by (simp add: initTutorialFlow_def Let_def)
  show "threads (snd (initTutorialFlow env c room user w)) =
        threads w @ [Ready (NewTutorial room user c (Templates (tutorialFlow env)))
                       (InitialDelay (tutorialFlow env))]"
    using l by (simp add: initTutorialFlow_def Let_def)
qed

theorem start_restarts_first_match_or_appends_witness:
  "initTutorialFlow (plain_env flow_wait) 0 ''r3'' ''u'' world_two_rooms =
     finish (RestartCall 1)
       (restart (plain_env flow_wait) (NewTutorial ''r1'' ''u'' 0 Map.empty) world_two_rooms) \<and>
   tutorials (snd (initTutorialFlow (plain_env flow_wait) 0 ''r3'' ''u'' world_two_rooms)) =
     tutorials world_two_rooms \<and>
   fst (initTutorialFlow (plain_env flow_wait) 0 ''r3'' ''w'' world_two_rooms) =
     Done (Some ''Starting Riot tutorial'') \<and>
   tutorials (snd (initTutorialFlow (plain_env flow_wait) 0 ''r3'' ''w'' world_two_rooms)) =
     tutorials world_two_rooms @ [NewTutorial ''r3'' ''w'' 0 Map.empty]"
proof -
  have h: "1 < length (tutorials world_two_rooms) \<and>
      userID (tutorials world_two_rooms ! 1) = ''u'' \<and>
      (\<forall>j<1. userID (tutorials world_two_rooms ! j) \<noteq> ''u'')"
    by (simp add: world_two_rooms_def init_world_def NewTutorial_def)
  have g: "\<forall>x \<in> set (tutorials world_two_rooms). userID x \<noteq> ''w''"
    by (simp add: world_two_rooms_def init_world_def NewTutorial_def)
  have n: "tutorials world_two_rooms ! 1 = NewTutorial ''r1'' ''u'' 0 Map.empty"
    by (simp add: world_two_rooms_def init_world_def)
  have t: "Templates (tutorialFlow (plain_env flow_wait)) = Map.empty"
    by (simp add: plain_env_def flow_wait_def)
  from start_restarts_first_match_or_appends [of 1 world_two_rooms "''u''" "plain_env flow_wait" 0 "''r3''"]
    start_restarts_first_match_or_appends [of 1 world_two_rooms "''w''" "plain_env flow_wait" 0 "''r3''"]
    h g
  show ?thesis unfolding n t by blast
qed

subsection \<open>The registry\<close>

lemma loop_Some:
  "initTutorialFlow_loop env n ts user w = Some r \<Longrightarrow>
   \<exists>i t. r = finish (RestartCall i) (restart env t w)"
  by (induction ts arbitrary: n) (auto split: if_splits)

lemma loop_match:
  "\<exists>x \<in> set ts. userID x = user \<Longrightarrow>
   \<exists>i t. initTutorialFlow_loop env n ts user w = Some (finish (RestartCall i) (restart env t w))"
  by (induction ts arbitrary: n) auto

lemma initTutorialFlow_registry:
  "tutorials (snd (initTutorialFlow env c room user w)) = tutorials w \<or>
   tutorials (snd (initTutorialFlow env c room user w)) =
     tutorials w @ [NewTutorial room user c (Templates (tutorialFlow env))]"
proof (cases "initTutorialFlow_loop env 0 (tutorials w) user w")
  case None
  then show ?thesis by (simp add: initTutorialFlow_def Let_def)
next
  case (Some r)
  then obtain i t where "r = finish (RestartCall i) (restart env t w)"
    using loop_Some by blast
  then show ?thesis using Some by (simp add: initTutorialFlow_def)
qed

lemma initTutorialFlow_threads:
  "\<exists>new. threads (snd (initTutorialFlow env c room user w)) = threads w @ new"
proof (cases "initTutorialFlow_loop env 0 (tutorials w) user w")
  case None
  then show ?thesis by (simp add: initTutorialFlow_def Let_def)
next
  case (Some r)
  then obtain i t where "r = finish (RestartCall i) (restart env t w)"
    using loop_Some by blast
  then show ?thesis using Some by (simp add: initTutorialFlow_def)
qed

lemma sys_step_registry:
  "tutorials (sys_step env a w) = tutorials w \<or>
   (\<exists>room user c. tutorials (sys_step env a w) =
      tutorials w @ [NewTutorial room user c (Templates (tutorialFlow env))])"
proof (cases a)
  case (Start c room user)
  then show ?thesis
    using initTutorialFlow_registry [of env c room user w]
    by (auto simp add: case_prod_unfold Let_def)
next
  case (Run i)
  then show ?thesis
    using run_frame(1) [of env]
    by (auto simp add: case_prod_unfold Let_def split: thread.splits)
next
  case (Fire i)
  then show ?thesis
    using run_frame(2) [of env]
    by (auto simp add: case_prod_unfold Let_def split: thread.splits)
qed

lemma exec_registry_prefix:
  "take (length (tutorials w)) (tutorials (exec env as w)) = tutorials w"
proof (induction as arbitrary: w)
  case Nil
  then show ?case by simp
next
  case (Cons a as)
  let ?w1 = "sys_step env a w"
  obtain new where n: "tutorials ?w1 = tutorials w @ new"
    using sys_step_registry [of env a w] by auto
  have "take (length (tutorials w)) (tutorials (exec env as ?w1)) =
        take (length (tutorials w)) (take (length (tutorials ?w1)) (tutorials (exec env as ?w1)))"
    using n by (simp add: min_def)
  also have "\<dots> = take (length (tutorials w)) (tutorials ?w1)"
    by (simp only: Cons.IH)
  also have "\<dots> = tutorials w" using n by simp
  finally show ?case by simp
qed

lemma exec_registry_fresh:
  "(\<forall>x \<in> set (tutorials w). currentStep x = - 1 \<and> timer x = None) \<Longrightarrow>
   (\<forall>x \<in> set (tutorials (exec env as w)). currentStep x = - 1 \<and> timer x = None)"
proof (induction as arbitrary: w)
  case Nil
  then show ?case by simp
next
  case (Cons a as)
  have "\<forall>x \<in> set (tutorials (sys_step env a w)). currentStep x = - 1 \<and> timer x = None"
    using sys_step_registry [of env a w] Cons.prems by (auto simp add: NewTutorial_def)
  then show ?case using Cons.IH by simp
qed

text \<open>
  Claim C10. \<^verbatim>\<open>nextStep\<close> and \<^verbatim>\<open>queueNextStep\<close> leave the registry as it is: the
  increments of \<open>currentStep\<close> and the timers go to the copies the goroutine works on. Whatever
  happens in the process, the entries the registry has stay as they are, and in every state
  the process reaches from its start each entry has \<open>currentStep = -1\<close> and no timer, however
  many steps have been sent.
\<close>

theorem registry_entry_is_never_advanced:
  "tutorials (snd (nextStep env t w)) = tutorials w \<and>
   tutorials (snd (queueNextStep env t d w)) = tutorials w \<and>
   take (length (tutorials w)) (tutorials (exec env as w)) = tutorials w \<and>
   (\<forall>x \<in> set (tutorials (exec env as init_world)). currentStep x = - 1 \<and> timer x = None)"
  using run_frame [of env] exec_registry_prefix [of w env as]
    exec_registry_fresh [of init_world env as]
  by (simp add: init_world_def)

theorem registry_entry_is_never_advanced_witness:
  "length (tutorials (exec (plain_env flow_two)
      [Start 0 ''r'' ''u'', Run 0, Fire 0, Fire 0] init_world)) = 1 \<and>
   currentStep (tutorials (exec (plain_env flow_two)
      [Start 0 ''r'' ''u'', Run 0, Fire 0, Fire 0] init_world) ! 0) = - 1 \<and>
   sent (trace (exec (plain_env flow_two)
      [Start 0 ''r'' ''u'', Run 0, Fire 0, Fire 0] init_world)) =
     [(0, ''r'', ''m.room.message'', TextMessage ''m.text'' ''a''),
      (0, ''r'', ''m.room.message'', TextMessage ''m.text'' ''b'')]"
proof -
  let ?w = "exec (plain_env flow_two) [Start 0 ''r'' ''u'', Run 0, Fire 0, Fire 0] init_world"
  have l: "length (tutorials ?w) = 1"
    by (simp add: eval_defs flow_two_def)
  have s: "sent (trace ?w) =
     [(0, ''r'', ''m.room.message'', TextMessage ''m.text'' ''a''),
      (0, ''r'', ''m.room.message'', TextMessage ''m.text'' ''b'')]"
    by (simp add: eval_defs flow_two_def)
  have "tutorials ?w ! 0 \<in> set (tutorials ?w)" using l by simp
  with registry_entry_is_never_advanced
    [of "plain_env flow_two" "NewTutorial ''r'' ''u'' 0 Map.empty" init_world 0 "[Start 0 ''r'' ''u'', Run 0, Fire 0, Fire 0]"]
  have "currentStep (tutorials ?w ! 0) = - 1" by blast
  with l s show ?thesis by simp
qed

subsection \<open>The counter of a run\<close>

text \<open>The \<open>currentStep\<close> of the struct a goroutine works on never goes down, whatever happens
  in the process, a restart for the same user included; and \<^verbatim>\<open>restart\<close> sets the counter of
  its own receiver to \<open>-1\<close>.\<close>

lemma finish_step:
  "thread_step (fst (finish kont r)) = Some c' \<Longrightarrow> \<exists>k t. fst r = Blocked k t \<and> currentStep t = c'"
  by (cases kont; cases r; cases "fst r"; simp)

lemma sys_step_thread:
  assumes "i < length (threads w)"
  shows "threads (sys_step env a w) ! i = threads w ! i \<or>
     (\<exists>t d. threads w ! i = Ready t d \<and>
        threads (sys_step env a w) ! i = fst (finish Goroutine (queueNextStep env t d w))) \<or>
     (\<exists>k t kont. threads w ! i = Waiting k t kont \<and>
        threads (sys_step env a w) ! i = fst (finish kont (nextStep env t (FireTimer k w))))"
proof (cases a)
  case (Start c room user)
  obtain new where "threads (snd (initTutorialFlow env c room user w)) = threads w @ new"
    using initTutorialFlow_threads by blast
  then show ?thesis using Start assms
    by (simp add: case_prod_unfold Let_def nth_append)
next
  case (Run j)
  show ?thesis
  proof (cases "j = i")
    case True
    then show ?thesis using Run assms run_frame(1) [of env]
      by (auto simp add: case_prod_unfold Let_def split: thread.splits)
  next
    case False
    then show ?thesis using Run assms run_frame(1) [of env]
      by (auto simp add: case_prod_unfold Let_def split: thread.splits)
  qed
next
  case (Fire j)
  show ?thesis
  proof (cases "j = i")
    case True
    then show ?thesis using Fire assms run_frame(2) [of env]
      by (auto simp add: case_prod_unfold Let_def split: thread.splits)
  next
    case False
    then show ?thesis using Fire assms run_frame(2) [of env]
      by (auto simp add: case_prod_unfold Let_def split: thread.splits)
  qed
qed

lemma sys_step_length: "length (threads w) \<le> length (threads (sys_step env a w))"
proof (cases a)
  case (Start c room user)
  obtain new where "threads (snd (initTutorialFlow env c room user w)) = threads w @ new"
    using initTutorialFlow_threads by blast
  then show ?thesis using Start by (simp add: case_prod_unfold Let_def)
next
  case (Run j)
  then show ?thesis using run_frame(1) [of env]
    by (auto simp add: case_prod_unfold Let_def split: thread.splits)
next
  case (Fire j)
  then show ?thesis using run_frame(2) [of env]
    by (auto simp add: case_prod_unfold Let_def split: thread.splits)
qed

lemma sys_step_monotone:
  assumes "i < length (threads w)" "thread_step (threads w ! i) = Some c"
    "thread_step (threads (sys_step env a w) ! i) = Some c'"
  shows "c \<le> c'"
  using sys_step_thread [OF assms(1), of env a]
proof (elim disjE exE conjE)
  assume "threads (sys_step env a w) ! i = threads w ! i"
  then show ?thesis using assms by simp
next
  fix t d
  assume a: "threads w ! i = Ready t d"
    "threads (sys_step env a w) ! i = fst (finish Goroutine (queueNextStep env t d w))"
  then obtain k t1 where "fst (queueNextStep env t d w) = Blocked k t1" "currentStep t1 = c'"
    using assms(3) finish_step by metis
  then show ?thesis using run_blocked(1) [of env t d w k t1] a assms(2) by simp
next
  fix k t kont
  assume a: "threads w ! i = Waiting k t kont"
    "threads (sys_step env a w) ! i = fst (finish kont (nextStep env t (FireTimer k w)))"
  then obtain k1 t1 where "fst (nextStep env t (FireTimer k w)) = Blocked k1 t1" "currentStep t1 = c'"
    using assms(3) finish_step by metis
  then show ?thesis using run_blocked(2) [of env t "FireTimer k w" k1 t1] a assms(2) by simp
qed

lemma sys_step_ended:
  assumes "i < length (threads w)" "thread_step (threads w ! i) = None"
  shows "threads (sys_step env a w) ! i = threads w ! i"
  using sys_step_thread [OF assms(1), of env a] assms(2) by auto

lemma exec_ended:
  "i < length (threads w) \<Longrightarrow> thread_step (threads w ! i) = None \<Longrightarrow>
   thread_step (threads (exec env as w) ! i) = None"
proof (induction as arbitrary: w)
  case Nil
  then show ?case by simp
next
  case (Cons a as)
  have "i < length (threads (sys_step env a w))"
    using Cons.prems(1) sys_step_length [of w env a] by simp
  moreover have "thread_step (threads (sys_step env a w) ! i) = None"
    using sys_step_ended [OF Cons.prems, of env a] Cons.prems(2) by simp
  ultimately show ?case using Cons.IH by simp
qed

lemma exec_monotone:
  "i < length (threads w) \<Longrightarrow> thread_step (threads w ! i) = Some c \<Longrightarrow>
   thread_step (threads (exec env as w) ! i) = Some c' \<Longrightarrow> c \<le> c'"
proof (induction as arbitrary: w c)
  case Nil
  then show ?case by simp
next
  case (Cons a as)
  let ?w1 = "sys_step env a w"
  have l: "i < length (threads ?w1)"
    using Cons.prems(1) sys_step_length [of w env a] by simp
  show ?case
  proof (cases "thread_step (threads ?w1 ! i)")
    case None
    then have "thread_step (threads (exec env as ?w1) ! i) = None"
      using l by (intro exec_ended)
    then show ?thesis using Cons.prems(3) by simp
  next
    case (Some c1)
    have "c \<le> c1" by (rule sys_step_monotone [OF Cons.prems(1,2) Some])
    moreover have "c1 \<le> c'" using Cons.IH [OF l Some] Cons.prems(3) by simp
    ultimately show ?thesis by simp
  qed
qed

lemma restart_first_log:
  "\<exists>es. trace (snd (restart env t w)) =
     trace w @ Log (LogQueueing (userID t) (- 1) (InitialDelay (tutorialFlow env))) # es"
proof -
  let ?t = "t\<lparr>currentStep := - 1\<rparr>"
  let ?d = "InitialDelay (tutorialFlow env)"
  let ?w = "case timer t of None \<Rightarrow> w | Some k \<Rightarrow> StopTimer k w"
  have r: "restart env t w = queueNextStep env ?t ?d ?w"
    by (simp add: restart_def Let_def)
  have tw: "trace ?w = trace w" by (simp split: option.splits)
  show ?thesis
  proof (cases rule: queueNextStep_cases [of ?d env ?t ?w])
    case blocks
    then show ?thesis using r tw by simp
  next
    case now
    obtain es where "trace (snd (nextStep env ?t (queued ?t ?d ?w))) = trace (queued ?t ?d ?w) @ es"
      using run_trace(2) by blast
    then show ?thesis using now r tw by simp
  qed
qed

lemma restart_blocks:
  "0 <s InitialDelay (tutorialFlow env) \<Longrightarrow>
   \<exists>k. fst (restart env t w) = Blocked k (t\<lparr>currentStep := - 1, timer := Some k\<rparr>)"
  by (simp add: restart_def Let_def queueNextStep_blocks)

text \<open>
  Claim C5 says that the \<open>currentStep\<close> of a session is set back to \<open>-1\<close> when the session is
  restarted, and does not go down between two restarts. In the code \<^verbatim>\<open>restart\<close> sets the
  \<open>currentStep\<close> of a new copy of the registry entry, which is \<open>-1\<close> already, and the
  goroutine that runs the session keeps its own copy. With an initial delay of 1 and two
  steps with a delay of 1: the user starts the tutorial and step 0 is performed; the user
  starts again, and the goroutine of the session is still at step 0, not at \<open>-1\<close>, while the
  call that restarts waits with a copy at \<open>-1\<close>; the timer of the earlier run expires and it
  goes on to step 1; then the restarted run performs step 0. The steps performed for the
  user are 0, 1, 0.
\<close>

theorem restart_does_not_reset_the_running_counter:
  "thread_step (threads (exec (plain_env flow_two)
      [Start 0 ''r'' ''u'', Run 0, Fire 0] init_world) ! 0) = Some 0 \<and>
   thread_step (threads (exec (plain_env flow_two)
      [Start 0 ''r'' ''u'', Run 0, Fire 0, Start 0 ''r'' ''u''] init_world) ! 0) = Some 0 \<and>
   thread_step (threads (exec (plain_env flow_two)
      [Start 0 ''r'' ''u'', Run 0, Fire 0, Start 0 ''r'' ''u''] init_world) ! 2) = Some (- 1) \<and>
   thread_step (threads (exec (plain_env flow_two)
      [Start 0 ''r'' ''u'', Run 0, Fire 0, Start 0 ''r'' ''u'', Fire 0] init_world) ! 0) = Some 1 \<and>
   performed_steps ''u'' (trace (exec (plain_env flow_two)
      [Start 0 ''r'' ''u'', Run 0, Fire 0, Start 0 ''r'' ''u'', Fire 0, Fire 2] init_world)) =
     [0, 1, 0]"
  by (simp add: eval_defs flow_two_def)

subsection \<open>Runs that come to their end\<close>

text \<open>
  A goroutine that starts \<^verbatim>\<open>queueNextStep\<close> with \<open>currentStep = -1\<close> in a flow whose bodies
  render: once the timers it waits for have expired, at most one more than the flow has steps,
  it has ended, and it has sent the message of every step, in the order of the steps.
\<close>

lemma settle:
  fixes env :: "'tm env"
  assumes r: "renders env" and cs: "currentStep t = - 1"
    and w1: "w1 = (snd (finish kont (queueNextStep env t d w)))\<lparr>threads := ths\<rparr>"
    and i: "i < length ths" "ths ! i = fst (finish kont (queueNextStep env t d w))"
    and n: "length (Steps (tutorialFlow env)) + 1 \<le> n"
  shows "threads (exec env (replicate n (Fire i)) w1) = ths[i := Done (returns kont)] \<and>
     tutorials (exec env (replicate n (Fire i)) w1) = tutorials w \<and>
     sent (trace (exec env (replicate n (Fire i)) w1)) =
       sent (trace w) @ map (step_sent env t) (Steps (tutorialFlow env))"
proof -
  let ?S = "Steps (tutorialFlow env)"
  let ?R = "queueNextStep env t d w"
  have np: "fst ?R \<noteq> Panicked"
    using run_no_panic(1) [OF r, of t d w] cs by simp
  have sn: "sent (trace (snd ?R)) =
      sent (trace w) @ map (step_sent env t) (take (nat (reached env (fst ?R) + 1)) ?S)"
    using run_sent(1) [OF r, of t d w] cs by simp
  have fr: "tutorials (snd ?R) = tutorials w"
    using run_frame(1) [of env t d w] by simp
  have f1: "threads w1 = ths" "tutorials w1 = tutorials w" "timers w1 = timers (snd ?R)"
    "sent (trace w1) = sent (trace (snd ?R))"
    using w1 fr by simp_all
  show ?thesis
  proof (cases "fst ?R")
    case Panicked
    with np show ?thesis by simp
  next
    case Returned
    have d: "ths ! i = Done (returns kont)"
      using i(2) finish_thread(2) [OF Returned, of kont] by simp
    have "exec env (replicate n (Fire i)) w1 = w1"
      by (rule fire_done [where r = "returns kont"]) (use f1 i d in simp_all)
    moreover have "ths[i := Done (returns kont)] = ths"
      using d list_update_id [of ths i] by simp
    ultimately show ?thesis using f1 sn Returned by simp
  next
    case (Blocked k t1)
    note b = run_blocked(1) [of env t d w k t1, THEN mp, OF Blocked]
    have wt: "threads w1 ! i = Waiting k t1 kont"
      using i(2) f1(1) finish_thread(1) [OF Blocked, of kont] by simp
    have dr: "threads (exec env (replicate n (Fire i)) w1) = (threads w1)[i := Done (returns kont)] \<and>
       tutorials (exec env (replicate n (Fire i)) w1) = tutorials w1 \<and>
       sent (trace (exec env (replicate n (Fire i)) w1)) =
         sent (trace w1) @ map (step_sent env t1) (drop (nat (currentStep t1 + 1)) ?S)"
    proof (rule drive [OF r _ wt])
      show "i < length (threads w1)" using f1 i by simp
      show "k < length (timers w1)" using b f1 by simp
      show "snd (timers w1 ! k) = Active" using b f1 by simp
      show "- 1 \<le> currentStep t1" using b cs by simp
      show "currentStep t1 < int (length ?S)" using b cs by simp
      show "nat (int (length ?S) - currentStep t1) \<le> n" using b cs n by auto
    qed
    have c: "step_sent env t1 = step_sent env t"
      by (rule step_sent_cong) (use b in simp_all)
    have "map (step_sent env t) (take (nat (currentStep t1 + 1)) ?S) @
          map (step_sent env t) (drop (nat (currentStep t1 + 1)) ?S) =
          map (step_sent env t) ?S"
      unfolding map_append [symmetric] by simp
    then show ?thesis using dr f1 sn c Blocked by simp
  qed
qed

lemma restart_call_returns:
  fixes env :: "'tm env"
  assumes r: "renders env" and m: "\<exists>x \<in> set (tutorials w). userID x = user"
    and n: "length (Steps (tutorialFlow env)) + 1 \<le> n"
  shows "threads (exec env (Start c room user # replicate n (Fire (length (threads w)))) w)
           ! length (threads w) = Done (Some ''Restarting Riot tutorial'')"
proof -
  obtain j tut where l: "initTutorialFlow_loop env 0 (tutorials w) user w =
      Some (finish (RestartCall j) (restart env tut w))"
    using loop_match [OF m] by blast
  let ?t = "tut\<lparr>currentStep := - 1\<rparr>"
  let ?d = "InitialDelay (tutorialFlow env)"
  let ?w0 = "case timer tut of None \<Rightarrow> w | Some k \<Rightarrow> StopTimer k w"
  let ?R = "queueNextStep env ?t ?d ?w0"
  let ?ths = "threads w @ [fst (finish (RestartCall j) ?R)]"
  have re: "restart env tut w = ?R"
    by (simp add: restart_def Let_def)
  have tw: "threads ?w0 = threads w" by (simp split: option.splits)
  have "threads (snd ?R) = threads ?w0"
    using run_frame(1) [of env ?t ?d ?w0] by simp
  then have st: "sys_step env (Start c room user) w =
      (snd (finish (RestartCall j) ?R))\<lparr>threads := ?ths\<rparr>"
    using l re tw by (simp add: initTutorialFlow_def case_prod_unfold Let_def)
  have "threads (exec env (replicate n (Fire (length (threads w))))
           (sys_step env (Start c room user) w)) =
        ?ths[length (threads w) := Done (returns (RestartCall j))] \<and>
     tutorials (exec env (replicate n (Fire (length (threads w))))
           (sys_step env (Start c room user) w)) = tutorials ?w0 \<and>
     sent (trace (exec env (replicate n (Fire (length (threads w))))
           (sys_step env (Start c room user) w))) =
       sent (trace ?w0) @ map (step_sent env ?t) (Steps (tutorialFlow env))"
    by (rule settle [OF r _ st _ _ n]) simp_all
  then show ?thesis by simp
qed

text \<open>
  What a session that is never restarted does when every body of the flow renders: one
  message for each step, in their order, and then the goroutine ends.
\<close>

lemma new_session_sends_every_step:
  fixes env :: "'tm env"
  assumes r: "renders env" and m: "\<forall>x \<in> set (tutorials w). userID x \<noteq> user"
    and n: "length (Steps (tutorialFlow env)) + 1 \<le> n"
  shows "threads (exec env (Start c room user # Run (length (threads w)) #
            replicate n (Fire (length (threads w)))) w) ! length (threads w) = Done None \<and>
     sent (trace (exec env (Start c room user # Run (length (threads w)) #
            replicate n (Fire (length (threads w)))) w)) =
       sent (trace w) @
       map (step_sent env (NewTutorial room user c (Templates (tutorialFlow env))))
         (Steps (tutorialFlow env))"
proof -
  let ?g = "length (threads w)"
  let ?t = "NewTutorial room user c (Templates (tutorialFlow env))"
  let ?d = "InitialDelay (tutorialFlow env)"
  let ?w2 = "sys_step env (Start c room user) w"
  let ?R = "queueNextStep env ?t ?d ?w2"
  let ?ths = "(threads ?w2)[?g := fst (finish Goroutine ?R)]"
  have l: "initTutorialFlow_loop env 0 (tutorials w) user w = None"
    using m by (rule loop_no_match)
  have w2: "threads ?w2 = threads w @ [Ready ?t ?d, Done (Some ''Starting Riot tutorial'')]"
    "sent (trace ?w2) = sent (trace w)"
    using l by (simp_all add: initTutorialFlow_def Let_def)
  have g: "threads ?w2 ! ?g = Ready ?t ?d" "?g < length (threads ?w2)"
    using w2(1) by simp_all
  have "threads (snd ?R) = threads ?w2"
    using run_frame(1) [of env ?t ?d ?w2] by simp
  then have st: "sys_step env (Run ?g) ?w2 = (snd (finish Goroutine ?R))\<lparr>threads := ?ths\<rparr>"
    using g by (simp add: case_prod_unfold Let_def)
  have "threads (exec env (replicate n (Fire ?g)) (sys_step env (Run ?g) ?w2)) =
        ?ths[?g := Done (returns Goroutine)] \<and>
     tutorials (exec env (replicate n (Fire ?g)) (sys_step env (Run ?g) ?w2)) = tutorials ?w2 \<and>
     sent (trace (exec env (replicate n (Fire ?g)) (sys_step env (Run ?g) ?w2))) =
       sent (trace ?w2) @ map (step_sent env ?t) (Steps (tutorialFlow env))"
    by (rule settle [OF r _ st _ _ n]) (use g in \<open>simp_all add: NewTutorial_def\<close>)
  then show ?thesis using w2 g by simp
qed

text \<open>
  Claim C6 gives the two strings as \<^verbatim>\<open>Restarting tutorial\<close> and \<^verbatim>\<open>Starting tutorial\<close>. The
  strings of the code are \<^verbatim>\<open>Restarting Riot tutorial\<close> and \<^verbatim>\<open>Starting Riot tutorial\<close>: the
  first call for a user returns the latter.
\<close>

theorem entry_point_strings_counterexample:
  "fst (initTutorialFlow (plain_env flow_wait) 0 ''r'' ''u'' init_world) =
     Done (Some ''Starting Riot tutorial'') \<and>
   fst (initTutorialFlow (plain_env flow_wait) 0 ''r'' ''u'' init_world) \<noteq>
     Done (Some ''Starting tutorial'')"
  by (simp add: eval_defs flow_wait_def)

text \<open>
  Claim C6 as amended. When no entry of the registry is the user's, \<^verbatim>\<open>initTutorialFlow\<close>
  returns \<^verbatim>\<open>Starting Riot tutorial\<close>. When an entry is the user's and every body of the flow
  renders, the call returns \<^verbatim>\<open>Restarting Riot tutorial\<close> once the timers it waits for have
  expired, of which there are at most one more than the flow has steps.
\<close>

theorem entry_point_returns_its_string:
  "((\<forall>x \<in> set (tutorials w). userID x \<noteq> user) \<longrightarrow>
      fst (initTutorialFlow env c room user w) = Done (Some ''Starting Riot tutorial'')) \<and>
   (renders env \<and> (\<exists>x \<in> set (tutorials w). userID x = user) \<and>
      length (Steps (tutorialFlow env)) + 1 \<le> n \<longrightarrow>
      threads (exec env (Start c room user # replicate n (Fire (length (threads w)))) w)
        ! length (threads w) = Done (Some ''Restarting Riot tutorial''))"
proof (intro conjI impI)
  assume "\<forall>x \<in> set (tutorials w). userID x \<noteq> user"
  then have "initTutorialFlow_loop env 0 (tutorials w) user w = None"
    by (rule loop_no_match)
  then show "fst (initTutorialFlow env c room user w) = Done (Some ''Starting Riot tutorial'')"
    by (simp add: initTutorialFlow_def Let_def)
next
  assume "renders env \<and> (\<exists>x \<in> set (tutorials w). userID x = user) \<and>
      length (Steps (tutorialFlow env)) + 1 \<le> n"
  then show "threads (exec env (Start c room user # replicate n (Fire (length (threads w)))) w)
        ! length (threads w) = Done (Some ''Restarting Riot tutorial'')"
    using restart_call_returns by blast
qed

theorem entry_point_returns_its_string_witness:
  "fst (initTutorialFlow (plain_env flow_wait) 0 ''r'' ''u'' init_world) =
     Done (Some ''Starting Riot tutorial'') \<and>
   threads (exec (plain_env flow_wait)
     [Start 0 ''r'' ''u'', Start 0 ''r'' ''u'', Fire 2, Fire 2] init_world) ! 2 =
     Done (Some ''Restarting Riot tutorial'')"
proof -
  let ?env = "plain_env flow_wait"
  let ?w = "exec ?env [Start 0 ''r'' ''u''] init_world"
  have a: "\<forall>x \<in> set (tutorials init_world). userID x \<noteq> ''u''"
    by (simp add: init_world_def)
  have r: "renders ?env"
    by (simp add: renders_def plain_env_def plain_Parse_def flow_wait_def)
  have m: "\<exists>x \<in> set (tutorials ?w). userID x = ''u''"
    by (simp add: eval_defs flow_wait_def)
  have n: "length (Steps (tutorialFlow ?env)) + 1 \<le> 2"
    by (simp add: plain_env_def flow_wait_def)
  have len: "length (threads ?w) = 2"
    by (simp add: eval_defs flow_wait_def)
  have rep: "replicate 2 (Fire 2) = [Fire 2, Fire 2]"
    by (simp add: numeral_2_eq_2)
  from entry_point_returns_its_string [of init_world "''u''" ?env 0 "''r''" 2] a
  have s: "fst (initTutorialFlow ?env 0 ''r'' ''u'' init_world) =
      Done (Some ''Starting Riot tutorial'')"
    by blast
  from entry_point_returns_its_string [of ?w "''u''" ?env 0 "''r''" 2] r m n
  have "threads (exec ?env (Start 0 ''r'' ''u'' # replicate 2 (Fire (length (threads ?w)))) ?w)
        ! length (threads ?w) = Done (Some ''Restarting Riot tutorial'')"
    by blast
  then have "threads (exec ?env [Start 0 ''r'' ''u'', Fire 2, Fire 2] ?w) ! 2 =
      Done (Some ''Restarting Riot tutorial'')"
    unfolding len rep .
  then show ?thesis using s by simp
qed

end
